theory Spec2Isabelle
  imports Complex_Main
begin

section \<open>Trade enumeration: \<^verbatim>\<open>src/lib/enumerate_trades.c\<close>\<close>

text \<open>
  The two masks are read through \<^verbatim>\<open>long *\<close> pointers and only ever compared with
  the constant 1, so a mask is an \<open>int list\<close>. The loop counter, \<^verbatim>\<open>skip_first\<close> and
  \<^verbatim>\<open>length\<close> are C \<^verbatim>\<open>int\<close>s; \<^verbatim>\<open>skip_first\<close> may be negative, so they are
  \<open>int\<close> here. The cast \<^verbatim>\<open>(int)PyArray_DIM(...)\<close> is the identity for arrays
  shorter than \<open>2 ^ 31\<close>, which is the range modelled. The recorded indices are the
  Python integers built by \<^verbatim>\<open>PyLong_FromLong(i)\<close>.
\<close>

datatype et_error = ET_LengthMismatch | ET_SkipFirstOutOfRange

record et_state =
  entry_list :: "int list"
  exit_list :: "int list"
  current_position :: int

text \<open>The body of the \<^verbatim>\<open>for\<close> loop at index \<open>i\<close> (lines 49 to 57).\<close>

definition et_body :: "int list \<Rightarrow> int list \<Rightarrow> int \<Rightarrow> et_state \<Rightarrow> et_state" where
  "et_body entry_data exit_data i s =
     (if current_position s = 1 \<and> exit_data ! nat i = 1 then
        s\<lparr>exit_list := exit_list s @ [i], current_position := 0\<rparr>
      else if current_position s = 0 \<and> entry_data ! nat i = 1 then
        s\<lparr>entry_list := entry_list s @ [i], current_position := 1\<rparr>
      else s)"

text \<open>The loop \<^verbatim>\<open>for (int i = skip_first; i < length; i++)\<close>.\<close>

function et_loop :: "int list \<Rightarrow> int list \<Rightarrow> int \<Rightarrow> int \<Rightarrow> et_state \<Rightarrow> et_state" where
  "et_loop entry_data exit_data len i s =
     (if i < len then et_loop entry_data exit_data len (i + 1) (et_body entry_data exit_data i s)
      else s)"
  by pat_completeness auto
termination
  by (relation "measure (\<lambda>(entry_data, exit_data, len, i, s). nat (len - i))") auto

declare et_loop.simps [simp del]

definition et_init :: et_state where
  "et_init = \<lparr>entry_list = [], exit_list = [], current_position = 0\<rparr>"

definition enumerate_trades ::
  "int list \<Rightarrow> int list \<Rightarrow> int \<Rightarrow> et_error + (int list \<times> int list)" where
  "enumerate_trades entry_mask exit_mask skip_first =
     (let len = int (length entry_mask) in
      if len \<noteq> int (length exit_mask) then Inl ET_LengthMismatch
      else if skip_first \<ge> len \<or> skip_first < 0 then Inl ET_SkipFirstOutOfRange
      else
        let s = et_loop entry_mask exit_mask len skip_first et_init in
        if length (entry_list s) > length (exit_list s)
        then Inr (entry_list s, exit_list s @ [len - 1])
        else Inr (entry_list s, exit_list s))"

section \<open>ZigZag detection: \<^verbatim>\<open>src/lib/zigzag.c\<close>\<close>

text \<open>
  The arithmetic of C \<^verbatim>\<open>double\<close>s is a parameter of the model: a record of the operations
  that \<^verbatim>\<open>calculate_zigzag\<close> applies to its data (division, subtraction, the comparisons
  \<^verbatim>\<open>>=\<close>, \<^verbatim>\<open><\<close> and \<^verbatim>\<open>>\<close>, and the constants 1 and 0.0). A theorem stated for every
  \<open>ops\<close> holds in particular for IEEE 754 binary64 with its rounding, its infinities (the
  result of a division by zero, which does not trap) and its NaNs. The instance
  \<open>exact_ops\<close> reads doubles as real numbers; on the concrete series used below, none of
  which divides by zero or comes near a threshold, it decides every comparison as binary64
  does.

  Indices are C \<^verbatim>\<open>int\<close>s that stay between 0 and the length of the arrays; they are
  \<open>nat\<close> here, for arrays shorter than \<open>2 ^ 31\<close>. The two output arrays hold C
  \<^verbatim>\<open>int\<close>s. The arrays are one-dimensional by their type, so the dimension check of
  lines 21 to 24 has no branch in the model. With arrays of length 0 the source reads
  \<^verbatim>\<open>lows[0]\<close> and \<^verbatim>\<open>highs[0]\<close> outside their buffers; that outcome is the value
  \<open>ZZ_EmptyRead\<close>.
\<close>

record 'a double_ops =
  div_d :: "'a \<Rightarrow> 'a \<Rightarrow> 'a"
  sub_d :: "'a \<Rightarrow> 'a \<Rightarrow> 'a"
  ge_d :: "'a \<Rightarrow> 'a \<Rightarrow> bool"
  lt_d :: "'a \<Rightarrow> 'a \<Rightarrow> bool"
  gt_d :: "'a \<Rightarrow> 'a \<Rightarrow> bool"
  one_d :: 'a
  zero_d :: 'a

definition exact_ops :: "real double_ops" where
  "exact_ops = \<lparr>div_d = (/), sub_d = (-), ge_d = (\<ge>), lt_d = (<), gt_d = (>),
                 one_d = 1, zero_d = 0\<rparr>"

datatype zz_error = ZZ_LengthMismatch | ZZ_EmptyRead

record 'a zz_state =
  markers_data :: "int list"
  turning_points_data :: "int list"
  direction :: int
  last_extreme_index :: nat
  last_extreme_value :: 'a
  candidate_low_index :: nat
  candidate_high_index :: nat
  candidate_low :: 'a
  candidate_high :: 'a
  trend_detected :: int

definition ratio_ge :: "'a double_ops \<Rightarrow> 'a \<Rightarrow> 'a \<Rightarrow> 'a \<Rightarrow> bool" where
  "ratio_ge ops num den epsilon =
     ge_d ops (sub_d ops (div_d ops num den) (one_d ops)) epsilon"

definition zz_init :: "'a double_ops \<Rightarrow> 'a list \<Rightarrow> 'a list \<Rightarrow> 'a zz_state" where
  "zz_init ops highs lows =
     \<lparr>markers_data = replicate (length highs) 0,
      turning_points_data = replicate (length highs) 0,
      direction = 0,
      last_extreme_index = 0,
      last_extreme_value = zero_d ops,
      candidate_low_index = 0,
      candidate_high_index = 0,
      candidate_low = lows ! 0,
      candidate_high = highs ! 0,
      trend_detected = 0\<rparr>"

definition update_candidates ::
  "'a double_ops \<Rightarrow> 'a list \<Rightarrow> 'a list \<Rightarrow> nat \<Rightarrow> 'a zz_state \<Rightarrow> 'a zz_state" where
  "update_candidates ops highs lows i s =
     (let s1 = (if lt_d ops (lows ! i) (candidate_low s)
                then s\<lparr>candidate_low := lows ! i, candidate_low_index := i\<rparr> else s)
      in if gt_d ops (highs ! i) (candidate_high s1)
         then s1\<lparr>candidate_high := highs ! i, candidate_high_index := i\<rparr> else s1)"

definition confirm_uptrend :: "nat \<Rightarrow> 'a zz_state \<Rightarrow> 'a zz_state" where
  "confirm_uptrend i s =
     (let s1 = s\<lparr>trend_detected := 1, direction := 1,
                  last_extreme_index := candidate_low_index s,
                  last_extreme_value := candidate_low s\<rparr>;
          s2 = s1\<lparr>markers_data := (markers_data s1)[last_extreme_index s1 := - 1],
                   turning_points_data := (turning_points_data s1)[i := 1]\<rparr>
      in s2\<lparr>last_extreme_index := candidate_high_index s2,
             last_extreme_value := candidate_high s2\<rparr>)"

definition confirm_downtrend :: "'a zz_state \<Rightarrow> 'a zz_state" where
  "confirm_downtrend s =
     (let s1 = s\<lparr>trend_detected := - 1, direction := - 1,
                  last_extreme_index := candidate_high_index s,
                  last_extreme_value := candidate_high s\<rparr>;
          s2 = s1\<lparr>markers_data := (markers_data s1)[last_extreme_index s1 := 1],
                   turning_points_data :=
                     (turning_points_data s1)[last_extreme_index s1 := - 1]\<rparr>
      in s2\<lparr>last_extreme_index := candidate_low_index s2,
             last_extreme_value := candidate_low s2\<rparr>)"

function prescan ::
  "'a double_ops \<Rightarrow> 'a list \<Rightarrow> 'a list \<Rightarrow> 'a \<Rightarrow> nat \<Rightarrow> 'a zz_state \<Rightarrow> nat \<times> 'a zz_state" where
  "prescan ops highs lows epsilon i s =
     (if i < length highs then
        (let s' = update_candidates ops highs lows i s in
         if ratio_ge ops (highs ! i) (candidate_low s') epsilon then (i, confirm_uptrend i s')
         else if ratio_ge ops (candidate_high s') (lows ! i) epsilon then (i, confirm_downtrend s')
         else prescan ops highs lows epsilon (Suc i) s')
      else (i, s))"
  by pat_completeness auto
termination
  by (relation "measure (\<lambda>(ops, highs, lows, epsilon, i, s). length highs - i)") auto

declare prescan.simps [simp del]

definition main_step ::
  "'a double_ops \<Rightarrow> 'a list \<Rightarrow> 'a list \<Rightarrow> 'a \<Rightarrow> nat \<Rightarrow> 'a zz_state \<Rightarrow> 'a zz_state" where
  "main_step ops highs lows epsilon i s =
     (if direction s = 1 then
        (let s1 = (if ratio_ge ops (last_extreme_value s) (lows ! i) epsilon then
                     (let s0 = s\<lparr>markers_data := (markers_data s)[last_extreme_index s := 1],
                                  turning_points_data := (turning_points_data s)[i := - 1],
                                  direction := - 1,
                                  last_extreme_index := i\<rparr>
                      in s0\<lparr>last_extreme_value := highs ! last_extreme_index s0\<rparr>)
                   else s)
         in if gt_d ops (highs ! i) (last_extreme_value s1)
            then s1\<lparr>last_extreme_index := i, last_extreme_value := highs ! i\<rparr> else s1)
      else if direction s = - 1 then
        (let s1 = (if ratio_ge ops (highs ! i) (last_extreme_value s) epsilon then
                     (let s0 = s\<lparr>markers_data := (markers_data s)[last_extreme_index s := - 1],
                                  turning_points_data := (turning_points_data s)[i := 1],
                                  direction := 1,
                                  last_extreme_index := i\<rparr>
                      in s0\<lparr>last_extreme_value := lows ! last_extreme_index s0\<rparr>)
                   else s)
         in if lt_d ops (lows ! i) (last_extreme_value s1)
            then s1\<lparr>last_extreme_index := i, last_extreme_value := lows ! i\<rparr> else s1)
      else s)"

function main_loop ::
  "'a double_ops \<Rightarrow> 'a list \<Rightarrow> 'a list \<Rightarrow> 'a \<Rightarrow> nat \<Rightarrow> 'a zz_state \<Rightarrow> 'a zz_state" where
  "main_loop ops highs lows epsilon i s =
     (if i < length highs
      then main_loop ops highs lows epsilon (Suc i) (main_step ops highs lows epsilon i s)
      else s)"
  by pat_completeness auto
termination
  by (relation "measure (\<lambda>(ops, highs, lows, epsilon, i, s). length highs - i)") auto

declare main_loop.simps [simp del]

definition zigzag_final :: "'a double_ops \<Rightarrow> 'a list \<Rightarrow> 'a list \<Rightarrow> 'a \<Rightarrow> 'a zz_state" where
  "zigzag_final ops highs lows epsilon =
     (case prescan ops highs lows epsilon 1 (zz_init ops highs lows) of
        (i, s) \<Rightarrow>
          if trend_detected s = 0 then s
          else main_loop ops highs lows epsilon (i + 1) s)"

definition calculate_zigzag ::
  "'a double_ops \<Rightarrow> 'a list \<Rightarrow> 'a list \<Rightarrow> 'a \<Rightarrow> zz_error + (int list \<times> int list)" where
  "calculate_zigzag ops highs lows epsilon =
     (if length highs \<noteq> length lows then Inl ZZ_LengthMismatch
      else if length highs = 0 then Inl ZZ_EmptyRead
      else
        (let s = zigzag_final ops highs lows epsilon
         in Inr (markers_data s, turning_points_data s)))"

section \<open>Auxiliary notions\<close>

text \<open>A mask value seen as the loop sees it: it fires exactly when it equals 1.\<close>

definition fires :: "int \<Rightarrow> int" where
  "fires v = (if v = 1 then 1 else 0)"

text \<open>The invariant of the trade loop before index \<open>i\<close>.\<close>

definition et_inv :: "int \<Rightarrow> et_state \<Rightarrow> bool" where
  "et_inv i s \<longleftrightarrow>
     (current_position s = 0 \<or> current_position s = 1) \<and>
     length (entry_list s) = length (exit_list s) + nat (current_position s) \<and>
     sorted_wrt (<) (entry_list s) \<and> sorted_wrt (<) (exit_list s) \<and>
     (\<forall>x \<in> set (entry_list s). x < i) \<and> (\<forall>x \<in> set (exit_list s). x < i) \<and>
     (\<forall>k < length (exit_list s). entry_list s ! k < exit_list s ! k) \<and>
     (current_position s = 1 \<longrightarrow> (\<forall>x \<in> set (exit_list s). x < last (entry_list s)))"

text \<open>
  Every index recorded so far lies between \<open>lo\<close> and \<open>i\<close> and carries the value 1 in its
  mask.
\<close>

definition fired_inv :: "int list \<Rightarrow> int list \<Rightarrow> int \<Rightarrow> int \<Rightarrow> et_state \<Rightarrow> bool" where
  "fired_inv entry_data exit_data lo i s \<longleftrightarrow>
     (\<forall>x \<in> set (entry_list s). lo \<le> x \<and> x < i \<and> entry_data ! nat x = 1) \<and>
     (\<forall>x \<in> set (exit_list s). lo \<le> x \<and> x < i \<and> exit_data ! nat x = 1)"

text \<open>An output array holds only the codes -1, 0 and 1, and has the length of the input.\<close>

definition tri :: "int list \<Rightarrow> bool" where
  "tri xs \<longleftrightarrow> list_all (\<lambda>v. v = - 1 \<or> v = 0 \<or> v = 1) xs"

definition zz_shape :: "nat \<Rightarrow> 'a zz_state \<Rightarrow> bool" where
  "zz_shape n s \<longleftrightarrow>
     length (markers_data s) = n \<and> length (turning_points_data s) = n \<and>
     tri (markers_data s) \<and> tri (turning_points_data s)"

text \<open>
  The candidates of Phase A after index \<open>i\<close> has been scanned (when no trigger fired before),
  and the two trigger conditions of Phase A at index \<open>i\<close>, tested on those candidates.
\<close>

primrec candidates_at :: "'a double_ops \<Rightarrow> 'a list \<Rightarrow> 'a list \<Rightarrow> nat \<Rightarrow> 'a zz_state" where
  "candidates_at ops highs lows 0 = zz_init ops highs lows"
| "candidates_at ops highs lows (Suc i) =
     update_candidates ops highs lows (Suc i) (candidates_at ops highs lows i)"

definition up_trigger :: "'a double_ops \<Rightarrow> 'a list \<Rightarrow> 'a list \<Rightarrow> 'a \<Rightarrow> nat \<Rightarrow> bool" where
  "up_trigger ops highs lows epsilon i =
     ratio_ge ops (highs ! i) (candidate_low (candidates_at ops highs lows i)) epsilon"

definition down_trigger :: "'a double_ops \<Rightarrow> 'a list \<Rightarrow> 'a list \<Rightarrow> 'a \<Rightarrow> nat \<Rightarrow> bool" where
  "down_trigger ops highs lows epsilon i =
     ratio_ge ops (candidate_high (candidates_at ops highs lows i)) (lows ! i) epsilon"

definition no_trigger_between ::
  "'a double_ops \<Rightarrow> 'a list \<Rightarrow> 'a list \<Rightarrow> 'a \<Rightarrow> nat \<Rightarrow> nat \<Rightarrow> bool" where
  "no_trigger_between ops highs lows epsilon a b \<longleftrightarrow>
     (\<forall>j. a \<le> j \<and> j < b \<longrightarrow>
        \<not> up_trigger ops highs lows epsilon j \<and> \<not> down_trigger ops highs lows epsilon j)"

text \<open>
  The running extremes as the specification words them: the minimum (maximum) of the
  first \<open>i + 1\<close> elements, the earliest index at which a value occurs, and the arithmetic
  whose comparisons \<^verbatim>\<open><\<close> and \<^verbatim>\<open>>\<close> are those of a linear order (as for doubles other
  than NaN, the two zeros counted as one value).
\<close>

definition running_min :: "'a::linorder list \<Rightarrow> nat \<Rightarrow> 'a" where
  "running_min xs i = Min (set (take (Suc i) xs))"

definition running_max :: "'a::linorder list \<Rightarrow> nat \<Rightarrow> 'a" where
  "running_max xs i = Max (set (take (Suc i) xs))"

definition earliest_index :: "'a list \<Rightarrow> 'a \<Rightarrow> nat" where
  "earliest_index xs v = length (takeWhile (\<lambda>x. x \<noteq> v) xs)"

definition ordered_ops :: "'a::linorder double_ops \<Rightarrow> bool" where
  "ordered_ops ops \<longleftrightarrow> (\<forall>a b. lt_d ops a b = (a < b) \<and> gt_d ops a b = (b < a))"

text \<open>
  The nonzero entries of an array in index order, and the invariant of the main loop before
  index \<open>i\<close>, on the markers \<open>m\<close>, the direction \<open>d\<close> and the tracked extreme index \<open>e\<close>:
  nothing is marked after \<open>e\<close>, and marking \<open>e\<close> with \<open>d\<close> would continue an alternating
  sequence.
\<close>

definition nonzero :: "int list \<Rightarrow> int list" where
  "nonzero xs = filter (\<lambda>v. v \<noteq> 0) xs"

definition alt3 :: "nat \<Rightarrow> int list \<Rightarrow> int \<Rightarrow> nat \<Rightarrow> bool" where
  "alt3 i m d e \<longleftrightarrow>
     (d = 1 \<or> d = - 1) \<and> e < i \<and> i \<le> length m \<and>
     (\<forall>k. e < k \<and> k < length m \<longrightarrow> m ! k = 0) \<and>
     distinct_adj (nonzero (take e m) @ [d]) \<and>
     (m ! e \<noteq> 0 \<longrightarrow> nonzero (take e m) = [] \<and> m ! e \<noteq> d)"

definition alt_inv :: "nat \<Rightarrow> 'a zz_state \<Rightarrow> bool" where
  "alt_inv i s \<longleftrightarrow> alt3 i (markers_data s) (direction s) (last_extreme_index s)"

text \<open>Unfolding rules that evaluate the detector on concrete series.\<close>

lemmas zz_eval = calculate_zigzag_def zigzag_final_def zz_init_def prescan.simps main_loop.simps
  main_step_def update_candidates_def confirm_uptrend_def confirm_downtrend_def ratio_ge_def
  exact_ops_def Let_def

section \<open>Properties of the trade enumerator\<close>

lemma et_body_fires:
  "0 \<le> i \<Longrightarrow> nat i < length entry_data \<Longrightarrow> nat i < length exit_data \<Longrightarrow>
   et_body (map fires entry_data) (map fires exit_data) i s = et_body entry_data exit_data i s"
  by (simp add: et_body_def fires_def)

lemma et_loop_fires:
  "0 \<le> i \<Longrightarrow> len = int (length entry_data) \<Longrightarrow> len = int (length exit_data) \<Longrightarrow>
   et_loop (map fires entry_data) (map fires exit_data) len i s = et_loop entry_data exit_data len i s"
proof (induction entry_data exit_data len i s rule: et_loop.induct)
  case (1 entry_data exit_data len i s)
  show ?case
  proof (cases "i < len")
    case True
    with "1.prems" have inr: "nat i < length entry_data" "nat i < length exit_data"
      by linarith+
    have step: "et_loop (map fires entry_data) (map fires exit_data) len (i + 1)
                  (et_body entry_data exit_data i s)
                = et_loop entry_data exit_data len (i + 1) (et_body entry_data exit_data i s)"
      using "1.IH" [OF True] "1.prems" by simp
    have "et_loop (map fires entry_data) (map fires exit_data) len i s
          = et_loop (map fires entry_data) (map fires exit_data) len (i + 1)
              (et_body (map fires entry_data) (map fires exit_data) i s)"
      using True by (subst et_loop.simps) simp
    also have "\<dots> = et_loop (map fires entry_data) (map fires exit_data) len (i + 1)
              (et_body entry_data exit_data i s)"
      using et_body_fires [OF "1.prems"(1) inr] by simp
    also have "\<dots> = et_loop entry_data exit_data len (i + 1) (et_body entry_data exit_data i s)"
      by (rule step)
    also have "\<dots> = et_loop entry_data exit_data len i s"
      using True by (subst (2) et_loop.simps) simp
    finally show ?thesis .
  next
    case False
    then show ?thesis by (subst et_loop.simps, subst (2) et_loop.simps) simp
  qed
qed

lemma et_inv_init: "et_inv i et_init"
  by (simp add: et_inv_def et_init_def)

lemma et_body_inv:
  assumes "et_inv i s"
  shows "et_inv (i + 1) (et_body entry_data exit_data i s)"
proof -
  consider (close) "current_position s = 1 \<and> exit_data ! nat i = 1"
    | (opn) "\<not> (current_position s = 1 \<and> exit_data ! nat i = 1)" "current_position s = 0 \<and> entry_data ! nat i = 1"
    | (skip) "\<not> (current_position s = 1 \<and> exit_data ! nat i = 1)" "\<not> (current_position s = 0 \<and> entry_data ! nat i = 1)"
    by blast
  then show ?thesis
  proof cases
    case close
    then have b: "et_body entry_data exit_data i s = s\<lparr>exit_list := exit_list s @ [i], current_position := 0\<rparr>"
      by (simp add: et_body_def)
    from assms close have ne: "entry_list s \<noteq> []" by (auto simp: et_inv_def)
    from assms close have len: "length (entry_list s) = Suc (length (exit_list s))" by (simp add: et_inv_def)
    have lastlt: "last (entry_list s) < i" using assms ne by (simp add: et_inv_def)
    have "entry_list s ! length (exit_list s) < i"
      using assms len by (simp add: et_inv_def)
    then have pairs: "\<forall>k < Suc (length (exit_list s)). entry_list s ! k < (exit_list s @ [i]) ! k"
      using assms by (auto simp: et_inv_def nth_append less_Suc_eq)
    show ?thesis
      unfolding b using assms close len pairs
      by (auto simp: et_inv_def sorted_wrt_append)
  next
    case opn
    then have b: "et_body entry_data exit_data i s = s\<lparr>entry_list := entry_list s @ [i], current_position := 1\<rparr>"
      by (simp add: et_body_def)
    show ?thesis
      unfolding b using assms opn
      by (auto simp: et_inv_def sorted_wrt_append nth_append)
  next
    case skip
    then have b: "et_body entry_data exit_data i s = s"
      by (simp add: et_body_def)
    show ?thesis
      unfolding b using assms by (fastforce simp: et_inv_def)
  qed
qed

lemma et_loop_inv:
  "et_inv i s \<Longrightarrow> i \<le> len \<Longrightarrow> et_inv len (et_loop entry_data exit_data len i s)"
proof (induction entry_data exit_data len i s rule: et_loop.induct)
  case (1 entry_data exit_data len i s)
  show ?case
  proof (cases "i < len")
    case True
    have "et_inv len (et_loop entry_data exit_data len (i + 1) (et_body entry_data exit_data i s))"
      using "1.IH" [OF True et_body_inv [OF "1.prems"(1)]] True by simp
    then show ?thesis using True by (subst et_loop.simps) simp
  next
    case False
    with "1.prems" have "i = len" by simp
    then show ?thesis using "1.prems"(1) by (subst et_loop.simps) simp
  qed
qed

lemma et_final_inv:
  assumes "length entry_mask = length exit_mask" "0 \<le> skip_first"
    "skip_first < int (length entry_mask)"
  shows "et_inv (int (length entry_mask))
           (et_loop entry_mask exit_mask (int (length entry_mask)) skip_first et_init)"
  using et_loop_inv [OF et_inv_init, of skip_first "int (length entry_mask)"] assms by simp

lemma enumerate_trades_Inr_valid:
  assumes "enumerate_trades entry_mask exit_mask skip_first = Inr r"
  shows "length entry_mask = length exit_mask \<and> 0 \<le> skip_first \<and>
         skip_first < int (length entry_mask)"
proof -
  have a: "length entry_mask = length exit_mask"
  proof (rule ccontr)
    assume "length entry_mask \<noteq> length exit_mask"
    then have "enumerate_trades entry_mask exit_mask skip_first = Inl ET_LengthMismatch"
      by (simp add: enumerate_trades_def)
    with assms show False by simp
  qed
  have b: "0 \<le> skip_first \<and> skip_first < int (length entry_mask)"
  proof (rule ccontr)
    assume "\<not> (0 \<le> skip_first \<and> skip_first < int (length entry_mask))"
    then have "enumerate_trades entry_mask exit_mask skip_first = Inl ET_SkipFirstOutOfRange"
      using a by (auto simp add: enumerate_trades_def)
    with assms show False by simp
  qed
  from a b show ?thesis by simp
qed

lemma enumerate_trades_valid:
  assumes "length entry_mask = length exit_mask" "0 \<le> skip_first"
    "skip_first < int (length entry_mask)"
  shows "enumerate_trades entry_mask exit_mask skip_first =
     (let s = et_loop entry_mask exit_mask (int (length entry_mask)) skip_first et_init in
        if length (entry_list s) > length (exit_list s)
        then Inr (entry_list s, exit_list s @ [int (length entry_mask) - 1])
        else Inr (entry_list s, exit_list s))"
  using assms by (simp add: enumerate_trades_def Let_def)

text \<open>
  C8. For masks of equal length \<open>N\<close> and \<open>0 \<le> skip_first < N\<close> the call returns two
  lists of the same length. The scan never records more exits than entries; when it ends
  with more entries than exits, the exit \<open>N - 1\<close> is appended, and otherwise the exits are
  returned as recorded.
\<close>

theorem enumerate_trades_balanced:
  assumes "length entry_mask = length exit_mask" "0 \<le> skip_first"
    "skip_first < int (length entry_mask)"
  shows "\<exists>entries exits.
           enumerate_trades entry_mask exit_mask skip_first = Inr (entries, exits) \<and>
           length entries = length exits \<and>
           (let s = et_loop entry_mask exit_mask (int (length entry_mask)) skip_first et_init in
             length (exit_list s) \<le> length (entry_list s) \<and>
             entries = entry_list s \<and>
             exits = (if length (exit_list s) < length (entry_list s)
                      then exit_list s @ [int (length entry_mask) - 1] else exit_list s))"
proof -
  let ?s = "et_loop entry_mask exit_mask (int (length entry_mask)) skip_first et_init"
  have inv: "et_inv (int (length entry_mask)) ?s" by (rule et_final_inv [OF assms])
  then have len: "length (entry_list ?s) = length (exit_list ?s) + nat (current_position ?s)"
    and pos: "current_position ?s = 0 \<or> current_position ?s = 1"
    by (simp_all add: et_inv_def)
  show ?thesis
  proof (cases "length (exit_list ?s) < length (entry_list ?s)")
    case True
    with len pos have "length (entry_list ?s) = Suc (length (exit_list ?s))" by auto
    with True assms show ?thesis by (simp add: enumerate_trades_def Let_def)
  next
    case False
    with len have "length (entry_list ?s) = length (exit_list ?s)" by simp
    with False assms show ?thesis by (simp add: enumerate_trades_def Let_def)
  qed
qed

theorem enumerate_trades_balanced_witness:
  "length [0, 1, 0, 0, 1, 0 :: int] = length [0, 0, 1, 0, 0, 0 :: int] \<and>
   (0::int) \<le> 0 \<and> (0::int) < int (length [0, 1, 0, 0, 1, 0 :: int]) \<and>
   enumerate_trades [0, 1, 0, 0, 1, 0] [0, 0, 1, 0, 0, 0] 0 = Inr ([1, 4], [2, 5]) \<and>
   (\<exists>entries exits.
      enumerate_trades [0, 1, 0, 0, 1, 0] [0, 0, 1, 0, 0, 0] 0 = Inr (entries, exits) \<and>
      length entries = length exits)"
proof -
  have h: "length [0, 1, 0, 0, 1, 0 :: int] = length [0, 0, 1, 0, 0, 0 :: int]"
    "(0::int) \<le> 0" "(0::int) < int (length [0, 1, 0, 0, 1, 0 :: int])"
    by simp_all
  have ev: "enumerate_trades [0, 1, 0, 0, 1, 0] [0, 0, 1, 0, 0, 0] 0 = Inr ([1, 4], [2, 5])"
    by (simp add: enumerate_trades_def et_init_def et_body_def et_loop.simps Let_def)
  from enumerate_trades_balanced [OF h] obtain entries exits where
    "enumerate_trades [0, 1, 0, 0, 1, 0] [0, 0, 1, 0, 0, 0] 0 = Inr (entries, exits)"
    "length entries = length exits" by blast
  then have "\<exists>entries exits.
      enumerate_trades [0, 1, 0, 0, 1, 0] [0, 0, 1, 0, 0, 0] 0 = Inr (entries, exits) \<and>
      length entries = length exits" by blast
  with h ev show ?thesis by blast
qed

text \<open>
  C9, as stated, fails: an entry recorded at the last index \<open>N - 1\<close> is closed by the
  synthesized exit at the same index, so the exit is not after the entry.
\<close>

theorem enumerate_trades_exit_not_after_entry:
  "enumerate_trades [0, 0, 1] [0, 0, 0] 0 = Inr ([2], [2]) \<and> \<not> ([2::int] ! 0 < [2::int] ! 0)"
  by (simp add: enumerate_trades_def et_init_def et_body_def et_loop.simps Let_def)

text \<open>
  C9, amended. The returned entries and exits are strictly increasing and of equal length,
  and every pair has \<open>entries[k] < exits[k]\<close>, except that the last pair may have
  \<open>entries[k] = exits[k] = N - 1\<close> (an entry at the last index, closed by the synthesized
  exit).
\<close>

theorem enumerate_trades_ordered:
  assumes "enumerate_trades entry_mask exit_mask skip_first = Inr (entries, exits)"
  shows "sorted_wrt (<) entries \<and> sorted_wrt (<) exits \<and> length entries = length exits \<and>
         (\<forall>k < length entries.
            entries ! k < exits ! k \<or>
            (entries ! k = exits ! k \<and> Suc k = length entries \<and>
             exits ! k = int (length entry_mask) - 1))"
proof -
  let ?n = "int (length entry_mask)"
  define s where "s = et_loop entry_mask exit_mask ?n skip_first et_init"
  from enumerate_trades_Inr_valid [OF assms]
  have ok: "length entry_mask = length exit_mask" "0 \<le> skip_first" "skip_first < ?n"
    by simp_all
  have inv: "et_inv ?n s" unfolding s_def by (rule et_final_inv [OF ok])
  have eq: "enumerate_trades entry_mask exit_mask skip_first =
      (if length (entry_list s) > length (exit_list s)
        then Inr (entry_list s, exit_list s @ [?n - 1])
        else Inr (entry_list s, exit_list s))"
    unfolding s_def using enumerate_trades_valid [OF ok] by (simp only: Let_def)
  note res0 = assms [unfolded eq]
  from inv have i_len: "length (entry_list s) = length (exit_list s) + nat (current_position s)"
    and i_pos: "current_position s = 0 \<or> current_position s = 1"
    and i_se: "sorted_wrt (<) (entry_list s)" and i_sx: "sorted_wrt (<) (exit_list s)"
    and i_eb: "\<forall>x \<in> set (entry_list s). x < ?n"
    and i_pairs: "\<forall>k < length (exit_list s). entry_list s ! k < exit_list s ! k"
    and i_last: "current_position s = 1 \<longrightarrow> (\<forall>x \<in> set (exit_list s). x < last (entry_list s))"
    by (simp_all add: et_inv_def)
  show ?thesis
  proof (cases "length (exit_list s) < length (entry_list s)")
    case True
    with res0 have res: "entries = entry_list s" "exits = exit_list s @ [?n - 1]"
      by simp_all
    from i_len i_pos True have pos: "current_position s = 1" by auto
    with i_len have len: "length (entry_list s) = Suc (length (exit_list s))"
      by simp
    then have ne: "entry_list s \<noteq> []" by auto
    have lastk: "last (entry_list s) = entry_list s ! length (exit_list s)"
      using len ne by (simp add: last_conv_nth)
    have "last (entry_list s) < ?n" using i_eb ne by simp
    then have last_le: "entry_list s ! length (exit_list s) \<le> ?n - 1" using lastk by simp
    have ex_lt: "\<forall>x \<in> set (exit_list s). x < ?n - 1"
    proof
      fix x assume "x \<in> set (exit_list s)"
      with i_last pos have "x < last (entry_list s)" by simp
      with lastk last_le show "x < ?n - 1" by simp
    qed
    have s1: "sorted_wrt (<) entries" using i_se res by simp
    have s2: "sorted_wrt (<) exits" using i_sx res ex_lt by (simp add: sorted_wrt_append)
    have s3: "length entries = length exits" using res len by simp
    have s4: "\<forall>k < length entries.
            entries ! k < exits ! k \<or>
            (entries ! k = exits ! k \<and> Suc k = length entries \<and> exits ! k = ?n - 1)"
    proof (intro allI impI)
      fix k assume "k < length entries"
      then have "k < length (exit_list s) \<or> k = length (exit_list s)"
        using res len by auto
      then show "entries ! k < exits ! k \<or>
            (entries ! k = exits ! k \<and> Suc k = length entries \<and> exits ! k = ?n - 1)"
      proof
        assume k: "k < length (exit_list s)"
        with i_pairs have "entry_list s ! k < exit_list s ! k" by simp
        then show ?thesis using res k by (simp add: nth_append)
      next
        assume k: "k = length (exit_list s)"
        have "exits ! k = ?n - 1" using res k by (simp add: nth_append)
        moreover have "entries ! k \<le> ?n - 1" using res k last_le by simp
        moreover have "Suc k = length entries" using res k len by simp
        ultimately show ?thesis by linarith
      qed
    qed
    from s1 s2 s3 s4 show ?thesis by blast
  next
    case False
    with res0 have res: "entries = entry_list s" "exits = exit_list s"
      by simp_all
    from i_len i_pos False have len: "length (entry_list s) = length (exit_list s)"
      by auto
    show ?thesis using i_se i_sx i_pairs res len by simp
  qed
qed

theorem enumerate_trades_ordered_witness:
  "enumerate_trades [0, 1, 0, 0, 1] [0, 0, 1, 0, 0] 0 = Inr ([1, 4], [2, 4]) \<and>
   sorted_wrt (<) [1, 4 :: int] \<and> sorted_wrt (<) [2, 4 :: int] \<and>
   [1, 4 :: int] ! 0 < [2, 4 :: int] ! 0 \<and> [1, 4 :: int] ! 1 = [2, 4 :: int] ! 1"
proof -
  have ev: "enumerate_trades [0, 1, 0, 0, 1] [0, 0, 1, 0, 0] 0 = Inr ([1, 4], [2, 4])"
    by (simp add: enumerate_trades_def et_init_def et_body_def et_loop.simps Let_def)
  from enumerate_trades_ordered [OF ev] have "sorted_wrt (<) [1, 4 :: int]" "sorted_wrt (<) [2, 4 :: int]"
    by blast+
  with ev show ?thesis by simp
qed

lemma fired_inv_init: "fired_inv entry_data exit_data lo i et_init"
  by (simp add: fired_inv_def et_init_def)

lemma et_body_fired_inv:
  assumes "fired_inv entry_data exit_data lo i s" "lo \<le> i"
  shows "fired_inv entry_data exit_data lo (i + 1) (et_body entry_data exit_data i s)"
  using assms by (fastforce simp add: fired_inv_def et_body_def)

lemma et_loop_fired_inv:
  "fired_inv entry_data exit_data lo i s \<Longrightarrow> lo \<le> i \<Longrightarrow> i \<le> len \<Longrightarrow>
   fired_inv entry_data exit_data lo len (et_loop entry_data exit_data len i s)"
proof (induction entry_data exit_data len i s rule: et_loop.induct)
  case (1 entry_data exit_data len i s)
  show ?case
  proof (cases "i < len")
    case True
    have "fired_inv entry_data exit_data lo len
            (et_loop entry_data exit_data len (i + 1) (et_body entry_data exit_data i s))"
      using "1.IH" [OF True et_body_fired_inv [OF "1.prems"(1,2)]] True "1.prems"(2) by simp
    then show ?thesis using True by (subst et_loop.simps) simp
  next
    case False
    with "1.prems" have "i = len" by simp
    then show ?thesis using "1.prems"(1) by (subst et_loop.simps) simp
  qed
qed

lemma et_body_not_one:
  "(entry_data ! nat i \<noteq> 1 \<longrightarrow>
      entry_list (et_body entry_data exit_data i s) = entry_list s \<and>
      (current_position (et_body entry_data exit_data i s) = 1 \<longrightarrow> current_position s = 1)) \<and>
   (exit_data ! nat i \<noteq> 1 \<longrightarrow>
      exit_list (et_body entry_data exit_data i s) = exit_list s \<and>
      (current_position s = 1 \<longrightarrow> current_position (et_body entry_data exit_data i s) = 1)) \<and>
   (entry_data ! nat i \<noteq> 1 \<and> exit_data ! nat i \<noteq> 1 \<longrightarrow>
      et_body entry_data exit_data i s = s)"
  by (simp add: et_body_def)

lemma enumerate_trades_recorded_fired:
  assumes "enumerate_trades entry_mask exit_mask skip_first = Inr (entries, exits)"
  shows "(\<forall>x \<in> set entries. skip_first \<le> x \<and> x < int (length entry_mask) \<and>
            entry_mask ! nat x = 1) \<and>
         (\<forall>x \<in> set exits.
            (skip_first \<le> x \<and> x < int (length entry_mask) \<and> exit_mask ! nat x = 1) \<or>
            x = int (length entry_mask) - 1)"
proof -
  let ?n = "int (length entry_mask)"
  define s where "s = et_loop entry_mask exit_mask ?n skip_first et_init"
  from enumerate_trades_Inr_valid [OF assms]
  have ok: "length entry_mask = length exit_mask" "0 \<le> skip_first" "skip_first < ?n"
    by simp_all
  have inv: "fired_inv entry_mask exit_mask skip_first ?n s"
    unfolding s_def by (rule et_loop_fired_inv [OF fired_inv_init]) (use ok in simp_all)
  have eq: "enumerate_trades entry_mask exit_mask skip_first =
      (if length (entry_list s) > length (exit_list s)
        then Inr (entry_list s, exit_list s @ [?n - 1])
        else Inr (entry_list s, exit_list s))"
    unfolding s_def using enumerate_trades_valid [OF ok] by (simp only: Let_def)
  note res0 = assms [unfolded eq]
  from inv have e: "\<forall>x \<in> set (entry_list s). skip_first \<le> x \<and> x < ?n \<and> entry_mask ! nat x = 1"
    and x: "\<forall>x \<in> set (exit_list s). skip_first \<le> x \<and> x < ?n \<and> exit_mask ! nat x = 1"
    by (simp_all add: fired_inv_def)
  show ?thesis
  proof (cases "length (exit_list s) < length (entry_list s)")
    case True
    with res0 have res: "entries = entry_list s" "exits = exit_list s @ [?n - 1]" by simp_all
    show ?thesis unfolding res using e x by auto
  next
    case False
    with res0 have res: "entries = entry_list s" "exits = exit_list s" by simp_all
    show ?thesis unfolding res using e x by auto
  qed
qed

text \<open>
  C10. A mask element is a signal only when it equals exactly 1. At every index of the scan,
  an entry value different from 1 (such as 2 or -1) records no entry and opens no position,
  an exit value different from 1 records no exit and closes no position, and when both
  differ from 1 the state is left as it is, as with 0. Over the whole call, every returned
  entry index holds the value 1 in the entry mask, and every returned exit index holds the
  value 1 in the exit mask or is the synthesized final exit \<open>N - 1\<close>. Replacing every
  element of both masks by 1 when it is 1 and by 0 otherwise changes nothing in the result,
  errors included.
\<close>

theorem enumerate_trades_only_one_fires:
  "(entry_data ! nat i \<noteq> 1 \<longrightarrow>
      entry_list (et_body entry_data exit_data i s) = entry_list s \<and>
      (current_position (et_body entry_data exit_data i s) = 1 \<longrightarrow> current_position s = 1)) \<and>
   (exit_data ! nat i \<noteq> 1 \<longrightarrow>
      exit_list (et_body entry_data exit_data i s) = exit_list s \<and>
      (current_position s = 1 \<longrightarrow> current_position (et_body entry_data exit_data i s) = 1)) \<and>
   (entry_data ! nat i \<noteq> 1 \<and> exit_data ! nat i \<noteq> 1 \<longrightarrow>
      et_body entry_data exit_data i s = s) \<and>
   (enumerate_trades entry_mask exit_mask skip_first = Inr (entries, exits) \<longrightarrow>
      (\<forall>x \<in> set entries. skip_first \<le> x \<and> x < int (length entry_mask) \<and>
         entry_mask ! nat x = 1) \<and>
      (\<forall>x \<in> set exits.
         (skip_first \<le> x \<and> x < int (length entry_mask) \<and> exit_mask ! nat x = 1) \<or>
         x = int (length entry_mask) - 1)) \<and>
   enumerate_trades (map fires entry_mask) (map fires exit_mask) skip_first
     = enumerate_trades entry_mask exit_mask skip_first"
proof -
  have norm: "enumerate_trades (map fires entry_mask) (map fires exit_mask) skip_first
     = enumerate_trades entry_mask exit_mask skip_first"
  proof (cases "int (length entry_mask) = int (length exit_mask) \<and> 0 \<le> skip_first")
    case True
    then show ?thesis
      using et_loop_fires [of skip_first "int (length entry_mask)" entry_mask exit_mask et_init]
      by (simp add: enumerate_trades_def Let_def)
  next
    case False
    then show ?thesis
      by (auto simp add: enumerate_trades_def Let_def)
  qed
  have run: "enumerate_trades entry_mask exit_mask skip_first = Inr (entries, exits) \<longrightarrow>
      (\<forall>x \<in> set entries. skip_first \<le> x \<and> x < int (length entry_mask) \<and>
         entry_mask ! nat x = 1) \<and>
      (\<forall>x \<in> set exits.
         (skip_first \<le> x \<and> x < int (length entry_mask) \<and> exit_mask ! nat x = 1) \<or>
         x = int (length entry_mask) - 1)"
    using enumerate_trades_recorded_fired by blast
  from et_body_not_one [of entry_data i exit_data s] run norm show ?thesis by blast
qed

theorem enumerate_trades_only_one_fires_witness:
  "[2, 1, - 1, 0, 1 :: int] ! nat 0 \<noteq> 1 \<and> [0, 2, - 1, 1, 5 :: int] ! nat 0 \<noteq> 1 \<and>
   et_body [2, 1, - 1, 0, 1] [0, 2, - 1, 1, 5] 0 et_init = et_init \<and>
   enumerate_trades [2, 1, - 1, 0, 1] [0, 2, - 1, 1, 5] 0 = Inr ([1, 4], [3, 4]) \<and>
   [2, 1, - 1, 0, 1 :: int] ! nat 1 = 1 \<and> [2, 1, - 1, 0, 1 :: int] ! nat 4 = 1 \<and>
   [0, 2, - 1, 1, 5 :: int] ! nat 3 = 1 \<and> (4 :: int) = int (length [2, 1, - 1, 0, 1 :: int]) - 1 \<and>
   enumerate_trades (map fires [2, 1, - 1, 0, 1]) (map fires [0, 2, - 1, 1, 5]) 0
     = enumerate_trades [2, 1, - 1, 0, 1] [0, 2, - 1, 1, 5] 0 \<and>
   enumerate_trades [0, 1, 0, 0, 1] [0, 0, 0, 1, 0] 0 = Inr ([1, 4], [3, 4])"
proof -
  let ?E = "[2, 1, - 1, 0, 1 :: int]"
  let ?X = "[0, 2, - 1, 1, 5 :: int]"
  note inst = enumerate_trades_only_one_fires [where entry_data = ?E and exit_data = ?X
      and i = 0 and s = et_init and entry_mask = ?E and exit_mask = ?X and skip_first = 0
      and entries = "[1, 4]" and exits = "[3, 4]"]
  have h: "?E ! nat 0 \<noteq> 1" "?X ! nat 0 \<noteq> 1" by simp_all
  have ev: "enumerate_trades ?E ?X 0 = Inr ([1, 4], [3, 4])"
    by (simp add: enumerate_trades_def et_init_def et_body_def et_loop.simps Let_def)
  have ev0: "enumerate_trades [0, 1, 0, 0, 1] [0, 0, 0, 1, 0] 0 = Inr ([1, 4], [3, 4])"
    by (simp add: enumerate_trades_def et_init_def et_body_def et_loop.simps Let_def)
  from inst h have b: "et_body ?E ?X 0 et_init = et_init" by blast
  from inst ev have en: "\<forall>x \<in> set [1, 4 :: int]. 0 \<le> x \<and> x < int (length ?E) \<and> ?E ! nat x = 1"
    and ex: "\<forall>x \<in> set [3, 4 :: int].
         (0 \<le> x \<and> x < int (length ?E) \<and> ?X ! nat x = 1) \<or> x = int (length ?E) - 1"
    by blast+
  from en have e1: "?E ! nat 1 = 1" "?E ! nat 4 = 1" by simp_all
  have x1: "?X ! nat 3 = 1" "(4 :: int) = int (length ?E) - 1" by simp_all
  from inst have n: "enumerate_trades (map fires ?E) (map fires ?X) 0 = enumerate_trades ?E ?X 0"
    by blast
  from h b ev e1 x1 n ev0 show ?thesis by blast
qed

section \<open>Properties of the ZigZag detector\<close>

lemma tri_replicate: "tri (replicate n 0)"
  by (simp add: tri_def list_all_iff)

lemma tri_update: "tri xs \<Longrightarrow> v = - 1 \<or> v = 0 \<or> v = 1 \<Longrightarrow> tri (xs[k := v])"
  unfolding tri_def list_all_iff
  using set_update_subset_insert [of xs k v] by auto

lemma zz_shape_init: "zz_shape (length highs) (zz_init ops highs lows)"
  by (simp add: zz_shape_def zz_init_def tri_replicate)

lemma zz_shape_update_candidates:
  "zz_shape n s \<Longrightarrow> zz_shape n (update_candidates ops highs lows i s)"
  by (simp add: zz_shape_def update_candidates_def Let_def)

lemma zz_shape_confirm_uptrend: "zz_shape n s \<Longrightarrow> zz_shape n (confirm_uptrend i s)"
  by (simp add: zz_shape_def confirm_uptrend_def Let_def tri_update)

lemma zz_shape_confirm_downtrend: "zz_shape n s \<Longrightarrow> zz_shape n (confirm_downtrend s)"
  by (simp add: zz_shape_def confirm_downtrend_def Let_def tri_update)

lemma zz_shape_main_step: "zz_shape n s \<Longrightarrow> zz_shape n (main_step ops highs lows epsilon i s)"
  by (simp add: zz_shape_def main_step_def Let_def tri_update)

lemma zz_shape_prescan:
  "zz_shape n s \<Longrightarrow> zz_shape n (snd (prescan ops highs lows epsilon i s))"
proof (induction ops highs lows epsilon i s rule: prescan.induct)
  case (1 ops highs lows epsilon i s)
  let ?s' = "update_candidates ops highs lows i s"
  have s': "zz_shape n ?s'" by (rule zz_shape_update_candidates [OF "1.prems"])
  show ?case
  proof (cases "i < length highs")
    case False
    then show ?thesis using "1.prems" by (subst prescan.simps) simp
  next
    case True
    show ?thesis
    proof (cases "ratio_ge ops (highs ! i) (candidate_low ?s') epsilon")
      case up: True
      then show ?thesis using True zz_shape_confirm_uptrend [OF s']
        by (subst prescan.simps) (simp add: Let_def)
    next
      case noup: False
      show ?thesis
      proof (cases "ratio_ge ops (candidate_high ?s') (lows ! i) epsilon")
        case dn: True
        then show ?thesis using True noup zz_shape_confirm_downtrend [OF s']
          by (subst prescan.simps) (simp add: Let_def)
      next
        case nodn: False
        have "zz_shape n (snd (prescan ops highs lows epsilon (Suc i) ?s'))"
          using "1.IH" [OF True refl noup nodn s'] .
        then show ?thesis using True noup nodn
          by (subst prescan.simps) (simp add: Let_def)
      qed
    qed
  qed
qed

lemma zz_shape_main_loop:
  "zz_shape n s \<Longrightarrow> zz_shape n (main_loop ops highs lows epsilon i s)"
proof (induction ops highs lows epsilon i s rule: main_loop.induct)
  case (1 ops highs lows epsilon i s)
  show ?case
  proof (cases "i < length highs")
    case True
    have "zz_shape n (main_loop ops highs lows epsilon (Suc i) (main_step ops highs lows epsilon i s))"
      using "1.IH" [OF True zz_shape_main_step [OF "1.prems"]] .
    then show ?thesis using True by (subst main_loop.simps) simp
  next
    case False
    then show ?thesis using "1.prems" by (subst main_loop.simps) simp
  qed
qed

lemma zz_shape_final: "zz_shape (length highs) (zigzag_final ops highs lows epsilon)"
proof -
  obtain i s where p: "prescan ops highs lows epsilon 1 (zz_init ops highs lows) = (i, s)"
    by (cases "prescan ops highs lows epsilon 1 (zz_init ops highs lows)")
  have "zz_shape (length highs) (snd (prescan ops highs lows epsilon 1 (zz_init ops highs lows)))"
    by (rule zz_shape_prescan [OF zz_shape_init])
  then have s: "zz_shape (length highs) s" using p by simp
  show ?thesis
    unfolding zigzag_final_def p using s zz_shape_main_loop [OF s] by simp
qed

lemma calculate_zigzag_valid:
  "length highs = length lows \<Longrightarrow> 0 < length highs \<Longrightarrow>
   calculate_zigzag ops highs lows epsilon =
     Inr (markers_data (zigzag_final ops highs lows epsilon),
          turning_points_data (zigzag_final ops highs lows epsilon))"
  by (simp add: calculate_zigzag_def Let_def)

text \<open>
  C6. For equal-length series of length \<open>N \<ge> 1\<close>, whatever the arithmetic and
  \<open>epsilon\<close>, the call returns two arrays of length \<open>N\<close> whose elements are all among
  -1, 0 and 1.
\<close>

theorem calculate_zigzag_shape:
  assumes "length highs = length lows" "0 < length highs"
  shows "\<exists>markers turning_points.
           calculate_zigzag ops highs lows epsilon = Inr (markers, turning_points) \<and>
           length markers = length highs \<and> length turning_points = length highs \<and>
           list_all (\<lambda>v. v = - 1 \<or> v = 0 \<or> v = 1) markers \<and>
           list_all (\<lambda>v. v = - 1 \<or> v = 0 \<or> v = 1) turning_points"
proof -
  have "zz_shape (length highs) (zigzag_final ops highs lows epsilon)"
    by (rule zz_shape_final)
  moreover have "calculate_zigzag ops highs lows epsilon =
     Inr (markers_data (zigzag_final ops highs lows epsilon),
          turning_points_data (zigzag_final ops highs lows epsilon))"
    by (rule calculate_zigzag_valid [OF assms])
  ultimately show ?thesis by (simp add: zz_shape_def tri_def)
qed

theorem calculate_zigzag_shape_witness:
  "length [100, 90, 60, 120 :: real] = length [100, 50, 50, 100 :: real] \<and>
   0 < length [100, 90, 60, 120 :: real] \<and>
   calculate_zigzag exact_ops [100, 90, 60, 120] [100, 50, 50, 100] 0.5
     = Inr ([1, - 1, - 1, 0], [0, 1, - 1, 1]) \<and>
   (\<exists>markers turning_points.
      calculate_zigzag exact_ops [100, 90, 60, 120] [100, 50, 50, 100] 0.5
        = Inr (markers, turning_points) \<and>
      length markers = length [100, 90, 60, 120 :: real] \<and>
      length turning_points = length [100, 90, 60, 120 :: real] \<and>
      list_all (\<lambda>v. v = - 1 \<or> v = 0 \<or> v = 1) markers \<and>
      list_all (\<lambda>v. v = - 1 \<or> v = 0 \<or> v = 1) turning_points)"
proof -
  have h: "length [100, 90, 60, 120 :: real] = length [100, 50, 50, 100 :: real]"
    "0 < length [100, 90, 60, 120 :: real]" by simp_all
  have ev: "calculate_zigzag exact_ops [100, 90, 60, 120] [100, 50, 50, 100] 0.5
     = Inr ([1, - 1, - 1, 0], [0, 1, - 1, 1])"
    by (simp add: zz_eval)
  from calculate_zigzag_shape [OF h, of exact_ops "0.5"] have
    "\<exists>markers turning_points.
      calculate_zigzag exact_ops [100, 90, 60, 120] [100, 50, 50, 100] 0.5
        = Inr (markers, turning_points) \<and>
      length markers = length [100, 90, 60, 120 :: real] \<and>
      length turning_points = length [100, 90, 60, 120 :: real] \<and>
      list_all (\<lambda>v. v = - 1 \<or> v = 0 \<or> v = 1) markers \<and>
      list_all (\<lambda>v. v = - 1 \<or> v = 0 \<or> v = 1) turning_points" .
  with h ev show ?thesis by blast
qed

text \<open>
  C7, as stated, fails: a call with \<open>epsilon = -1\<close> is not rejected; it returns its arrays.
\<close>

theorem calculate_zigzag_negative_epsilon_accepted:
  "calculate_zigzag exact_ops [1, 2] [1, 2] (- 1) = Inr ([- 1, 0], [0, 1])"
  by (simp add: zz_eval)

text \<open>
  C7, amended. The detector has no domain check: for series of equal length \<open>N \<ge> 1\<close> it
  returns its two arrays for every \<open>epsilon\<close> (also zero or negative) and for every series
  values (also a zero denominator in a ratio test), whatever the division does with them.
\<close>

theorem calculate_zigzag_no_domain_check:
  assumes "length highs = length lows" "0 < length highs"
  shows "\<exists>markers turning_points.
           calculate_zigzag ops highs lows epsilon = Inr (markers, turning_points)"
  using assms by (simp add: calculate_zigzag_def Let_def)

theorem calculate_zigzag_no_domain_check_witness:
  "length [3, 4 :: real] = length [1, 2 :: real] \<and> 0 < length [3, 4 :: real] \<and>
   (\<exists>markers turning_points.
      calculate_zigzag exact_ops [3, 4] [1, 2] 0 = Inr (markers, turning_points)) \<and>
   calculate_zigzag exact_ops [3, 4] [1, 2] 0 = Inr ([- 1, 0], [0, 1])"
proof -
  have h: "length [3, 4 :: real] = length [1, 2 :: real]" "0 < length [3, 4 :: real]"
    by simp_all
  have ev: "calculate_zigzag exact_ops [3, 4] [1, 2] 0 = Inr ([- 1, 0], [0, 1])"
    by (simp add: zz_eval)
  from calculate_zigzag_no_domain_check [OF h, of exact_ops 0] h ev show ?thesis by blast
qed

subsection \<open>Phase A\<close>

lemma prescan_step_no_trigger:
  assumes "Suc k < length highs"
    "\<not> up_trigger ops highs lows epsilon (Suc k)" "\<not> down_trigger ops highs lows epsilon (Suc k)"
  shows "prescan ops highs lows epsilon (Suc k) (candidates_at ops highs lows k)
         = prescan ops highs lows epsilon (Suc (Suc k)) (candidates_at ops highs lows (Suc k))"
  using assms
  by (subst prescan.simps) (simp add: up_trigger_def down_trigger_def Let_def)

lemma prescan_skip:
  assumes "k + d < length highs"
    "no_trigger_between ops highs lows epsilon (Suc k) (Suc (k + d))"
  shows "prescan ops highs lows epsilon (Suc k) (candidates_at ops highs lows k)
         = prescan ops highs lows epsilon (Suc (k + d)) (candidates_at ops highs lows (k + d))"
  using assms
proof (induction d)
  case 0
  then show ?case by simp
next
  case (Suc d)
  have nt: "no_trigger_between ops highs lows epsilon (Suc k) (Suc (k + d))"
    using Suc.prems(2) by (simp add: no_trigger_between_def)
  have here: "\<not> up_trigger ops highs lows epsilon (Suc (k + d))"
    "\<not> down_trigger ops highs lows epsilon (Suc (k + d))"
    using Suc.prems(2) by (simp_all add: no_trigger_between_def)
  have "prescan ops highs lows epsilon (Suc k) (candidates_at ops highs lows k)
        = prescan ops highs lows epsilon (Suc (k + d)) (candidates_at ops highs lows (k + d))"
    using Suc.IH nt Suc.prems(1) by simp
  also have "\<dots> = prescan ops highs lows epsilon (Suc (Suc (k + d)))
                      (candidates_at ops highs lows (Suc (k + d)))"
    using prescan_step_no_trigger [OF _ here] Suc.prems(1) by simp
  finally show ?case by simp
qed

lemma prescan_from_start:
  assumes "i < length highs" "no_trigger_between ops highs lows epsilon 1 (Suc i)"
  shows "prescan ops highs lows epsilon 1 (zz_init ops highs lows)
         = prescan ops highs lows epsilon (Suc i) (candidates_at ops highs lows i)"
  using prescan_skip [of 0 i highs ops lows epsilon] assms by simp

lemma prescan_no_trigger:
  assumes "0 < length highs"
    "no_trigger_between ops highs lows epsilon 1 (length highs)"
  shows "prescan ops highs lows epsilon 1 (zz_init ops highs lows)
         = (length highs, candidates_at ops highs lows (length highs - 1))"
proof -
  from assms(1) obtain n where n: "length highs = Suc n" by (cases "length highs") auto
  have "prescan ops highs lows epsilon 1 (zz_init ops highs lows)
         = prescan ops highs lows epsilon (Suc n) (candidates_at ops highs lows n)"
    using prescan_from_start [of n highs ops lows epsilon] assms(2) n by simp
  also have "\<dots> = (Suc n, candidates_at ops highs lows n)"
    using n by (subst prescan.simps) simp
  finally show ?thesis using n by simp
qed

lemma prescan_up_at:
  assumes "0 < i" "i < length highs" "no_trigger_between ops highs lows epsilon 1 i"
    "up_trigger ops highs lows epsilon i"
  shows "prescan ops highs lows epsilon 1 (zz_init ops highs lows)
         = (i, confirm_uptrend i (candidates_at ops highs lows i))"
proof -
  from assms(1) obtain k where k: "i = Suc k" by (cases i) auto
  have "prescan ops highs lows epsilon 1 (zz_init ops highs lows)
         = prescan ops highs lows epsilon (Suc k) (candidates_at ops highs lows k)"
    using prescan_from_start [of k highs ops lows epsilon] assms(2,3) k by simp
  also have "\<dots> = (Suc k, confirm_uptrend (Suc k) (candidates_at ops highs lows (Suc k)))"
    using assms(2,4) k by (subst prescan.simps) (simp add: up_trigger_def Let_def)
  finally show ?thesis using k by simp
qed

lemma prescan_down_at:
  assumes "0 < i" "i < length highs" "no_trigger_between ops highs lows epsilon 1 i"
    "\<not> up_trigger ops highs lows epsilon i" "down_trigger ops highs lows epsilon i"
  shows "prescan ops highs lows epsilon 1 (zz_init ops highs lows)
         = (i, confirm_downtrend (candidates_at ops highs lows i))"
proof -
  from assms(1) obtain k where k: "i = Suc k" by (cases i) auto
  have "prescan ops highs lows epsilon 1 (zz_init ops highs lows)
         = prescan ops highs lows epsilon (Suc k) (candidates_at ops highs lows k)"
    using prescan_from_start [of k highs ops lows epsilon] assms(2,3) k by simp
  also have "\<dots> = (Suc k, confirm_downtrend (candidates_at ops highs lows (Suc k)))"
    using assms(2,4,5) k
    by (subst prescan.simps) (simp add: up_trigger_def down_trigger_def Let_def)
  finally show ?thesis using k by simp
qed

lemma candidates_at_outputs:
  "markers_data (candidates_at ops highs lows i) = replicate (length highs) 0 \<and>
   turning_points_data (candidates_at ops highs lows i) = replicate (length highs) 0 \<and>
   trend_detected (candidates_at ops highs lows i) = 0 \<and>
   direction (candidates_at ops highs lows i) = 0"
  by (induction i) (simp_all add: zz_init_def update_candidates_def Let_def)

lemma calculate_zigzag_prescan_zero:
  assumes "length highs = length lows" "0 < length highs"
    "prescan ops highs lows epsilon 1 (zz_init ops highs lows) = (i, s)"
    "trend_detected s = 0"
  shows "calculate_zigzag ops highs lows epsilon = Inr (markers_data s, turning_points_data s)"
  using assms by (simp add: calculate_zigzag_def zigzag_final_def Let_def)

lemma calculate_zigzag_no_trigger_zero:
  assumes "length highs = length lows" "0 < length highs"
    "no_trigger_between ops highs lows epsilon 1 (length highs)"
  shows "calculate_zigzag ops highs lows epsilon
         = Inr (replicate (length highs) 0, replicate (length highs) 0)"
proof -
  let ?s = "candidates_at ops highs lows (length highs - 1)"
  have p: "prescan ops highs lows epsilon 1 (zz_init ops highs lows) = (length highs, ?s)"
    by (rule prescan_no_trigger [OF assms(2,3)])
  have o: "markers_data ?s = replicate (length highs) 0"
    "turning_points_data ?s = replicate (length highs) 0" "trend_detected ?s = 0"
    using candidates_at_outputs [of ops highs lows "length highs - 1"] by simp_all
  show ?thesis
    using calculate_zigzag_prescan_zero [OF assms(1,2) p o(3)] o(1,2) by simp
qed

lemma candidates_at_constant:
  "i < n \<Longrightarrow>
   candidate_low (candidates_at ops (replicate n c) (replicate n c) i) = c \<and>
   candidate_high (candidates_at ops (replicate n c) (replicate n c) i) = c"
  by (induction i) (simp_all add: zz_init_def update_candidates_def Let_def)

lemma no_trigger_constant:
  assumes "\<not> ratio_ge ops c c epsilon"
  shows "no_trigger_between ops (replicate n c) (replicate n c) epsilon 1 n"
  using assms candidates_at_constant [of _ n ops c]
  by (simp add: no_trigger_between_def up_trigger_def down_trigger_def)

lemma exact_ratio_self: "0 < epsilon \<Longrightarrow> \<not> ratio_ge exact_ops c c epsilon"
  by (simp add: ratio_ge_def exact_ops_def)

lemma calculate_zigzag_singleton:
  "calculate_zigzag ops [h] [l] epsilon = Inr ([0], [0])"
proof -
  have "calculate_zigzag ops [h] [l] epsilon
        = Inr (replicate (length [h]) 0, replicate (length [h]) 0)"
    by (rule calculate_zigzag_no_trigger_zero) (simp_all add: no_trigger_between_def)
  then show ?thesis by simp
qed

lemma calculate_zigzag_constant:
  assumes "0 < n" "\<not> ratio_ge ops c c epsilon"
  shows "calculate_zigzag ops (replicate n c) (replicate n c) epsilon
         = Inr (replicate n 0, replicate n 0)"
proof -
  have nt: "no_trigger_between ops (replicate n c) (replicate n c) epsilon 1
              (length (replicate n c))"
    using no_trigger_constant [OF assms(2), of n] by simp
  have "calculate_zigzag ops (replicate n c) (replicate n c) epsilon
         = Inr (replicate (length (replicate n c)) 0, replicate (length (replicate n c)) 0)"
    by (rule calculate_zigzag_no_trigger_zero [OF _ _ nt]) (simp_all add: assms(1))
  then show ?thesis by simp
qed

lemma no_trigger_example_up_1: "\<not> up_trigger exact_ops [100, 104, 110] [100, 98, 99] 0.5 (Suc 0)"
  by (simp add: up_trigger_def zz_init_def update_candidates_def ratio_ge_def exact_ops_def Let_def)

lemma no_trigger_example_down_1: "\<not> down_trigger exact_ops [100, 104, 110] [100, 98, 99] 0.5 (Suc 0)"
  by (simp add: down_trigger_def zz_init_def update_candidates_def ratio_ge_def exact_ops_def Let_def)

lemma no_trigger_example_up_2: "\<not> up_trigger exact_ops [100, 104, 110] [100, 98, 99] 0.5 (Suc (Suc 0))"
  by (simp add: up_trigger_def zz_init_def update_candidates_def ratio_ge_def exact_ops_def Let_def)

lemma no_trigger_example_down_2: "\<not> down_trigger exact_ops [100, 104, 110] [100, 98, 99] 0.5 (Suc (Suc 0))"
  by (simp add: down_trigger_def zz_init_def update_candidates_def ratio_ge_def exact_ops_def Let_def)

text \<open>
  C5. When no index from 1 on satisfies either Phase-A trigger condition, both returned
  arrays are all zero and of length \<open>N\<close>, whatever the arithmetic. This covers every
  series of length 1, and (with exact arithmetic) every constant positive series with a
  positive \<open>epsilon\<close>.
\<close>

theorem calculate_zigzag_no_trigger:
  "(length highs = length lows \<and> 0 < length highs \<and>
      no_trigger_between ops highs lows epsilon 1 (length highs) \<longrightarrow>
      calculate_zigzag ops highs lows epsilon
        = Inr (replicate (length highs) 0, replicate (length highs) 0)) \<and>
   calculate_zigzag ops [h] [l] epsilon = Inr ([0], [0]) \<and>
   (0 < n \<and> 0 < c \<and> 0 < eps \<longrightarrow>
      calculate_zigzag exact_ops (replicate n c) (replicate n c) eps
        = Inr (replicate n 0, replicate n 0))"
proof (intro conjI impI)
  assume a: "length highs = length lows \<and> 0 < length highs \<and>
      no_trigger_between ops highs lows epsilon 1 (length highs)"
  from a have a1: "length highs = length lows" and a2: "0 < length highs"
    and a3: "no_trigger_between ops highs lows epsilon 1 (length highs)" by blast+
  show "calculate_zigzag ops highs lows epsilon
        = Inr (replicate (length highs) 0, replicate (length highs) 0)"
    by (rule calculate_zigzag_no_trigger_zero [OF a1 a2 a3])
next
  show "calculate_zigzag ops [h] [l] epsilon = Inr ([0], [0])"
    by (rule calculate_zigzag_singleton)
next
  assume a: "0 < n \<and> 0 < c \<and> 0 < eps"
  show "calculate_zigzag exact_ops (replicate n c) (replicate n c) eps
        = Inr (replicate n 0, replicate n 0)"
    by (rule calculate_zigzag_constant) (simp_all add: a exact_ratio_self)
qed

theorem calculate_zigzag_no_trigger_witness:
  "length [100, 104, 110 :: real] = length [100, 98, 99 :: real] \<and>
   0 < length [100, 104, 110 :: real] \<and>
   no_trigger_between exact_ops [100, 104, 110] [100, 98, 99] 0.5 1 (length [100, 104, 110 :: real]) \<and>
   calculate_zigzag exact_ops [100, 104, 110] [100, 98, 99] 0.5
     = Inr (replicate (length [100, 104, 110 :: real]) 0, replicate (length [100, 104, 110 :: real]) 0) \<and>
   calculate_zigzag exact_ops [7] [3] 0.5 = Inr ([0], [0]) \<and>
   (0::nat) < 10 \<and> (0::real) < 100 \<and> (0::real) < 0.5 \<and>
   calculate_zigzag exact_ops (replicate 10 100) (replicate 10 100) 0.5
     = Inr (replicate 10 0, replicate 10 0)"
proof -
  have nt: "no_trigger_between exact_ops [100, 104, 110] [100, 98, 99] 0.5 1 (length [100, 104, 110 :: real])"
    unfolding no_trigger_between_def
  proof (intro allI impI)
    fix j :: nat assume "1 \<le> j \<and> j < length [100, 104, 110 :: real]"
    then have "j = Suc 0 \<or> j = Suc (Suc 0)" by auto
    then show "\<not> up_trigger exact_ops [100, 104, 110] [100, 98, 99] 0.5 j \<and>
               \<not> down_trigger exact_ops [100, 104, 110] [100, 98, 99] 0.5 j"
      using no_trigger_example_up_1 no_trigger_example_down_1
        no_trigger_example_up_2 no_trigger_example_down_2 by blast
  qed
  have h: "length [100, 104, 110 :: real] = length [100, 98, 99 :: real]"
    "0 < length [100, 104, 110 :: real]" by simp_all
  have n: "(0::nat) < 10" "(0::real) < 100" "(0::real) < 0.5" by simp_all
  note inst = calculate_zigzag_no_trigger [where highs = "[100, 104, 110]" and lows = "[100, 98, 99]"
      and ops = exact_ops and epsilon = "0.5" and h = 7 and l = 3 and n = 10 and c = 100 and eps = "0.5"]
  from inst h nt n show ?thesis by blast
qed

subsection \<open>The candidates of Phase A are the running extremes\<close>

lemma earliest_index_eqI:
  assumes "k < length xs" "xs ! k = v" "\<And>j. j < k \<Longrightarrow> xs ! j \<noteq> v"
  shows "earliest_index xs v = k"
proof -
  have "takeWhile (\<lambda>x. x \<noteq> v) xs = take k xs"
    by (rule takeWhile_eq_take_P_nth) (use assms in auto)
  then show ?thesis using assms(1) by (simp add: earliest_index_def)
qed

lemma earliest_index_nth:
  "v \<in> set xs \<Longrightarrow> earliest_index xs v < length xs \<and> xs ! earliest_index xs v = v"
  by (induction xs) (auto simp: earliest_index_def)

lemma running_min_0: "xs \<noteq> [] \<Longrightarrow> running_min xs 0 = xs ! 0"
  by (cases xs) (simp_all add: running_min_def)

lemma running_max_0: "xs \<noteq> [] \<Longrightarrow> running_max xs 0 = xs ! 0"
  by (cases xs) (simp_all add: running_max_def)

lemma take_Suc_set: "i < length xs \<Longrightarrow> set (take (Suc i) xs) = insert (xs ! i) (set (take i xs))"
  by (simp add: take_Suc_conv_app_nth)

lemma take_Suc_nonempty: "xs \<noteq> [] \<Longrightarrow> set (take (Suc i) xs) \<noteq> {}"
  by (cases xs) simp_all

lemma running_min_Suc:
  assumes "Suc i < length xs"
  shows "running_min xs (Suc i) = min (xs ! Suc i) (running_min xs i)"
proof -
  from assms have "xs \<noteq> []" by auto
  then have ne: "set (take (Suc i) xs) \<noteq> {}" by (rule take_Suc_nonempty)
  have "Min (insert (xs ! Suc i) (set (take (Suc i) xs)))
        = min (xs ! Suc i) (Min (set (take (Suc i) xs)))"
    using ne by (intro Min_insert) auto
  then show ?thesis using take_Suc_set [OF assms] by (simp add: running_min_def)
qed

lemma running_max_Suc:
  assumes "Suc i < length xs"
  shows "running_max xs (Suc i) = max (xs ! Suc i) (running_max xs i)"
proof -
  from assms have "xs \<noteq> []" by auto
  then have ne: "set (take (Suc i) xs) \<noteq> {}" by (rule take_Suc_nonempty)
  have "Max (insert (xs ! Suc i) (set (take (Suc i) xs)))
        = max (xs ! Suc i) (Max (set (take (Suc i) xs)))"
    using ne by (intro Max_insert) auto
  then show ?thesis using take_Suc_set [OF assms] by (simp add: running_max_def)
qed

lemma nth_in_take: "j \<le> i \<Longrightarrow> i < length xs \<Longrightarrow> xs ! j \<in> set (take (Suc i) xs)"
  by (metis in_set_conv_nth length_take less_Suc_eq_le min.absorb2 nth_take Suc_leI)

lemma running_min_le: "j \<le> i \<Longrightarrow> i < length xs \<Longrightarrow> running_min xs i \<le> xs ! j"
  unfolding running_min_def by (rule Min_le) (simp_all add: nth_in_take)

lemma running_max_ge: "j \<le> i \<Longrightarrow> i < length xs \<Longrightarrow> xs ! j \<le> running_max xs i"
  unfolding running_max_def by (rule Max_ge) (simp_all add: nth_in_take)

lemma running_min_in: "i < length xs \<Longrightarrow> running_min xs i \<in> set xs"
proof -
  assume a: "i < length xs"
  from a have "xs \<noteq> []" by auto
  then have "set (take (Suc i) xs) \<noteq> {}" by (rule take_Suc_nonempty)
  then have "Min (set (take (Suc i) xs)) \<in> set (take (Suc i) xs)" by (simp add: Min_in)
  then show ?thesis unfolding running_min_def by (rule in_set_takeD)
qed

lemma running_max_in: "i < length xs \<Longrightarrow> running_max xs i \<in> set xs"
proof -
  assume a: "i < length xs"
  from a have "xs \<noteq> []" by auto
  then have "set (take (Suc i) xs) \<noteq> {}" by (rule take_Suc_nonempty)
  then have "Max (set (take (Suc i) xs)) \<in> set (take (Suc i) xs)" by (simp add: Max_in)
  then show ?thesis unfolding running_max_def by (rule in_set_takeD)
qed

lemma earliest_running_min_Suc:
  assumes "Suc i < length xs"
  shows "earliest_index xs (running_min xs (Suc i)) =
         (if xs ! Suc i < running_min xs i then Suc i
          else earliest_index xs (running_min xs i))"
proof (cases "xs ! Suc i < running_min xs i")
  case True
  then have m: "running_min xs (Suc i) = xs ! Suc i"
    using running_min_Suc [OF assms] by (simp add: min_absorb1 less_imp_le)
  have "earliest_index xs (xs ! Suc i) = Suc i"
  proof (rule earliest_index_eqI [OF assms refl])
    fix j assume "j < Suc i"
    then have "running_min xs i \<le> xs ! j" using running_min_le [of j i xs] assms by simp
    with True show "xs ! j \<noteq> xs ! Suc i" by auto
  qed
  with True m show ?thesis by simp
next
  case False
  then have "running_min xs (Suc i) = running_min xs i"
    using running_min_Suc [OF assms] by (simp add: min_absorb2 not_less)
  with False show ?thesis by simp
qed

lemma earliest_running_max_Suc:
  assumes "Suc i < length xs"
  shows "earliest_index xs (running_max xs (Suc i)) =
         (if running_max xs i < xs ! Suc i then Suc i
          else earliest_index xs (running_max xs i))"
proof (cases "running_max xs i < xs ! Suc i")
  case True
  then have m: "running_max xs (Suc i) = xs ! Suc i"
    using running_max_Suc [OF assms] by (simp add: max_absorb1 less_imp_le)
  have "earliest_index xs (xs ! Suc i) = Suc i"
  proof (rule earliest_index_eqI [OF assms refl])
    fix j assume "j < Suc i"
    then have "xs ! j \<le> running_max xs i" using running_max_ge [of j i xs] assms by simp
    with True show "xs ! j \<noteq> xs ! Suc i" by auto
  qed
  with True m show ?thesis by simp
next
  case False
  then have "running_max xs (Suc i) = running_max xs i"
    using running_max_Suc [OF assms] by (simp add: max_absorb2 not_less)
  with False show ?thesis by simp
qed

lemma earliest_index_le:
  assumes "i < length xs"
  shows "earliest_index xs (running_min xs i) \<le> i" "earliest_index xs (running_max xs i) \<le> i"
  using assms
proof (induction i)
  case 0
  { case 1 then show ?case by (cases xs) (simp_all add: running_min_def earliest_index_def) }
  { case 2 then show ?case by (cases xs) (simp_all add: running_max_def earliest_index_def) }
next
  case (Suc i)
  { case 1 then show ?case using Suc.IH(1) by (simp add: earliest_running_min_Suc) }
  { case 2 then show ?case using Suc.IH(2) by (simp add: earliest_running_max_Suc) }
qed

lemma candidates_at_running:
  fixes ops :: "'a::linorder double_ops"
  assumes "ordered_ops ops" "length highs = length lows" "i < length highs"
  shows "candidate_low (candidates_at ops highs lows i) = running_min lows i \<and>
         candidate_low_index (candidates_at ops highs lows i)
           = earliest_index lows (running_min lows i) \<and>
         candidate_high (candidates_at ops highs lows i) = running_max highs i \<and>
         candidate_high_index (candidates_at ops highs lows i)
           = earliest_index highs (running_max highs i)"
  using assms(3)
proof (induction i)
  case 0
  then have ne: "highs \<noteq> []" "lows \<noteq> []" using assms(2) by auto
  have "earliest_index lows (lows ! 0) = 0"
    using ne(2) by (cases lows) (simp_all add: earliest_index_def)
  moreover have "earliest_index highs (highs ! 0) = 0"
    using ne(1) by (cases highs) (simp_all add: earliest_index_def)
  ultimately show ?case using ne by (simp add: zz_init_def running_min_0 running_max_0)
next
  case (Suc i)
  then have IH: "candidate_low (candidates_at ops highs lows i) = running_min lows i"
    "candidate_low_index (candidates_at ops highs lows i) = earliest_index lows (running_min lows i)"
    "candidate_high (candidates_at ops highs lows i) = running_max highs i"
    "candidate_high_index (candidates_at ops highs lows i) = earliest_index highs (running_max highs i)"
    by simp_all
  have lt: "Suc i < length lows" "Suc i < length highs" using Suc.prems assms(2) by simp_all
  have ops: "\<And>a b. lt_d ops a b = (a < b)" "\<And>a b. gt_d ops a b = (b < a)"
    using assms(1) by (simp_all add: ordered_ops_def)
  have lo: "candidate_low (candidates_at ops highs lows (Suc i)) = running_min lows (Suc i)"
    using IH by (auto simp add: update_candidates_def Let_def ops running_min_Suc [OF lt(1)] min_def not_less)
  have loi: "candidate_low_index (candidates_at ops highs lows (Suc i))
               = earliest_index lows (running_min lows (Suc i))"
    using IH by (auto simp add: update_candidates_def Let_def ops earliest_running_min_Suc [OF lt(1)])
  have hi: "candidate_high (candidates_at ops highs lows (Suc i)) = running_max highs (Suc i)"
    using IH by (auto simp add: update_candidates_def Let_def ops running_max_Suc [OF lt(2)] max_def not_less)
  have hii: "candidate_high_index (candidates_at ops highs lows (Suc i))
               = earliest_index highs (running_max highs (Suc i))"
    using IH by (auto simp add: update_candidates_def Let_def ops earliest_running_max_Suc [OF lt(2)])
  from lo loi hi hii show ?case by simp
qed

lemma ordered_triggers:
  fixes ops :: "'a::linorder double_ops"
  assumes "ordered_ops ops" "length highs = length lows" "i < length highs"
  shows "up_trigger ops highs lows epsilon i
           = ratio_ge ops (highs ! i) (running_min lows i) epsilon"
    and "down_trigger ops highs lows epsilon i
           = ratio_ge ops (running_max highs i) (lows ! i) epsilon"
  using candidates_at_running [OF assms] by (simp_all add: up_trigger_def down_trigger_def)

text \<open>What Phase B leaves untouched.\<close>

lemma main_step_tp_other:
  "j \<noteq> i \<Longrightarrow> turning_points_data (main_step ops highs lows epsilon i s) ! j
     = turning_points_data s ! j"
  by (simp add: main_step_def Let_def)

lemma main_step_markers_other:
  "k \<noteq> last_extreme_index s \<Longrightarrow> markers_data (main_step ops highs lows epsilon i s) ! k
     = markers_data s ! k"
  by (simp add: main_step_def Let_def)

lemma main_step_last_extreme_index:
  "last_extreme_index (main_step ops highs lows epsilon i s) = last_extreme_index s \<or>
   last_extreme_index (main_step ops highs lows epsilon i s) = i"
  by (simp add: main_step_def Let_def)

lemma main_loop_tp_below:
  "j < i \<Longrightarrow> turning_points_data (main_loop ops highs lows epsilon i s) ! j
     = turning_points_data s ! j"
proof (induction ops highs lows epsilon i s rule: main_loop.induct)
  case (1 ops highs lows epsilon i s)
  show ?case
  proof (cases "i < length highs")
    case True
    have "turning_points_data (main_loop ops highs lows epsilon (Suc i)
            (main_step ops highs lows epsilon i s)) ! j
          = turning_points_data (main_step ops highs lows epsilon i s) ! j"
      using "1.IH" [OF True] "1.prems" by simp
    also have "\<dots> = turning_points_data s ! j"
      using "1.prems" by (simp add: main_step_tp_other)
    finally show ?thesis using True by (subst main_loop.simps) simp
  next
    case False
    then show ?thesis by (subst main_loop.simps) simp
  qed
qed

lemma main_loop_markers_below:
  "k < i \<Longrightarrow> k \<noteq> last_extreme_index s \<Longrightarrow>
   markers_data (main_loop ops highs lows epsilon i s) ! k = markers_data s ! k"
proof (induction ops highs lows epsilon i s rule: main_loop.induct)
  case (1 ops highs lows epsilon i s)
  show ?case
  proof (cases "i < length highs")
    case True
    have ne: "k \<noteq> last_extreme_index (main_step ops highs lows epsilon i s)"
      using main_step_last_extreme_index [of ops highs lows epsilon i s] "1.prems" by auto
    have "markers_data (main_loop ops highs lows epsilon (Suc i)
            (main_step ops highs lows epsilon i s)) ! k
          = markers_data (main_step ops highs lows epsilon i s) ! k"
      using "1.IH" [OF True _ ne] "1.prems" by simp
    also have "\<dots> = markers_data s ! k"
      using "1.prems" by (simp add: main_step_markers_other)
    finally show ?thesis using True by (subst main_loop.simps) simp
  next
    case False
    then show ?thesis by (subst main_loop.simps) simp
  qed
qed

lemma calculate_zigzag_trend:
  assumes "length highs = length lows" "0 < length highs"
    "prescan ops highs lows epsilon 1 (zz_init ops highs lows) = (i, s)"
    "trend_detected s \<noteq> 0"
  shows "calculate_zigzag ops highs lows epsilon
         = Inr (markers_data (main_loop ops highs lows epsilon (i + 1) s),
                turning_points_data (main_loop ops highs lows epsilon (i + 1) s))"
  using assms by (simp add: calculate_zigzag_def zigzag_final_def Let_def)

lemma quiet_no_trigger:
  fixes ops :: "'a::linorder double_ops"
  assumes "ordered_ops ops" "length highs = length lows" "i < length highs"
    and "\<forall>j. 0 < j \<and> j < i \<longrightarrow>
           \<not> ratio_ge ops (highs ! j) (running_min lows j) epsilon \<and>
           \<not> ratio_ge ops (running_max highs j) (lows ! j) epsilon"
  shows "no_trigger_between ops highs lows epsilon 1 i"
  unfolding no_trigger_between_def
proof (intro allI impI)
  fix j assume j: "1 \<le> j \<and> j < i"
  then have lt: "j < length highs" using assms(3) by simp
  from j assms(4) have "\<not> ratio_ge ops (highs ! j) (running_min lows j) epsilon"
    "\<not> ratio_ge ops (running_max highs j) (lows ! j) epsilon" by auto
  then show "\<not> up_trigger ops highs lows epsilon j \<and> \<not> down_trigger ops highs lows epsilon j"
    using ordered_triggers [OF assms(1,2) lt, of epsilon] by simp
qed

lemma scenario_upward:
  "calculate_zigzag exact_ops [100, 100, 100, 160, 100] [100, 100, 100, 100, 100] 0.5
     = Inr ([- 1, 0, 0, 1, 0], [0, 0, 0, 1, - 1])"
  by (simp add: zz_eval)

lemma ordered_exact_ops: "ordered_ops exact_ops"
  by (simp add: ordered_ops_def exact_ops_def)

text \<open>
  C1. With comparisons that are a linear order and any rounding of the ratio test: when,
  scanning from index 1, no trigger fires before index \<open>i\<close> and the upward trigger
  \<open>highs[i] / candidateLow - 1 \<ge> epsilon\<close> fires at \<open>i\<close>, where \<open>candidateLow\<close> is the minimum
  of \<open>lows[0..i]\<close> at its earliest index, Phase A ends at \<open>i\<close> having set
  \<open>markers[candidateLowIndex] = -1\<close> and \<open>turningPoints[i] = 1\<close> (all else zero), with direction
  up and the tracked extreme equal to the maximum of \<open>highs[0..i]\<close> at its earliest index. In
  the returned arrays \<open>turningPoints[i] = 1\<close> still holds, and \<open>markers[candidateLowIndex] = -1\<close>
  holds whenever the candidate low and the candidate high are at different indices. On
  \<open>highs = [100,100,100,160,100]\<close>, \<open>lows = [100,100,100,100,100]\<close>, \<open>epsilon = 0.5\<close> the
  output has \<open>markers[0] = -1\<close> and \<open>turningPoints[3] = 1\<close>.
\<close>

theorem prescan_upward_first:
  fixes ops :: "'a::linorder double_ops"
  assumes "ordered_ops ops" "length highs = length lows" "0 < i" "i < length highs"
    and "\<forall>j. 0 < j \<and> j < i \<longrightarrow>
           \<not> ratio_ge ops (highs ! j) (running_min lows j) epsilon \<and>
           \<not> ratio_ge ops (running_max highs j) (lows ! j) epsilon"
    and "ratio_ge ops (highs ! i) (running_min lows i) epsilon"
  shows "(\<exists>s. prescan ops highs lows epsilon 1 (zz_init ops highs lows) = (i, s) \<and>
            markers_data s
              = (replicate (length highs) 0)[earliest_index lows (running_min lows i) := - 1] \<and>
            turning_points_data s = (replicate (length highs) 0)[i := 1] \<and>
            direction s = 1 \<and>
            last_extreme_value s = running_max highs i \<and>
            last_extreme_index s = earliest_index highs (running_max highs i)) \<and>
         (\<exists>markers turning_points.
            calculate_zigzag ops highs lows epsilon = Inr (markers, turning_points) \<and>
            turning_points ! i = 1 \<and>
            (earliest_index lows (running_min lows i) \<noteq> earliest_index highs (running_max highs i)
               \<longrightarrow> markers ! earliest_index lows (running_min lows i) = - 1)) \<and>
         calculate_zigzag exact_ops [100, 100, 100, 160, 100] [100, 100, 100, 100, 100] 0.5
           = Inr ([- 1, 0, 0, 1, 0], [0, 0, 0, 1, - 1])"
proof -
  let ?c = "candidates_at ops highs lows i"
  let ?s = "confirm_uptrend i ?c"
  let ?lo = "earliest_index lows (running_min lows i)"
  let ?hi = "earliest_index highs (running_max highs i)"
  have nt: "no_trigger_between ops highs lows epsilon 1 i"
    by (rule quiet_no_trigger [OF assms(1,2,4,5)])
  have up: "up_trigger ops highs lows epsilon i"
    using ordered_triggers(1) [OF assms(1,2,4), of epsilon] assms(6) by simp
  have p: "prescan ops highs lows epsilon 1 (zz_init ops highs lows) = (i, ?s)"
    by (rule prescan_up_at [OF assms(3,4) nt up])
  have c: "candidate_low_index ?c = ?lo" "candidate_high ?c = running_max highs i"
    "candidate_high_index ?c = ?hi"
    using candidates_at_running [OF assms(1,2,4)] by simp_all
  have o: "markers_data ?c = replicate (length highs) 0"
    "turning_points_data ?c = replicate (length highs) 0"
    using candidates_at_outputs [of ops highs lows i] by simp_all
  have s1: "markers_data ?s = (replicate (length highs) 0)[?lo := - 1]"
    and s2: "turning_points_data ?s = (replicate (length highs) 0)[i := 1]"
    and s3: "direction ?s = 1" and s4: "last_extreme_value ?s = running_max highs i"
    and s5: "last_extreme_index ?s = ?hi" and s6: "trend_detected ?s \<noteq> 0"
    by (simp_all add: confirm_uptrend_def Let_def c o)
  have lo_le: "?lo \<le> i" using earliest_index_le(1) [of i lows] assms(2,4) by simp
  let ?f = "main_loop ops highs lows epsilon (i + 1) ?s"
  have res: "calculate_zigzag ops highs lows epsilon
               = Inr (markers_data ?f, turning_points_data ?f)"
  proof -
    from assms(4) have pos: "0 < length highs" by linarith
    show ?thesis by (rule calculate_zigzag_trend [OF assms(2) pos p s6])
  qed
  have t: "turning_points_data ?f ! i = 1"
    using main_loop_tp_below [of i "i + 1" ops highs lows epsilon ?s] assms(4) by (simp add: s2)
  have m: "?lo \<noteq> ?hi \<longrightarrow> markers_data ?f ! ?lo = - 1"
  proof
    assume ne: "?lo \<noteq> ?hi"
    have "markers_data ?f ! ?lo = markers_data ?s ! ?lo"
      by (rule main_loop_markers_below) (use lo_le ne s5 in simp_all)
    also have "\<dots> = - 1" using lo_le assms(4) by (simp add: s1)
    finally show "markers_data ?f ! ?lo = - 1" .
  qed
  from p s1 s2 s3 s4 s5 have A: "\<exists>s. prescan ops highs lows epsilon 1 (zz_init ops highs lows) = (i, s) \<and>
            markers_data s = (replicate (length highs) 0)[?lo := - 1] \<and>
            turning_points_data s = (replicate (length highs) 0)[i := 1] \<and>
            direction s = 1 \<and>
            last_extreme_value s = running_max highs i \<and>
            last_extreme_index s = ?hi" by blast
  from res t m have B: "\<exists>markers turning_points.
            calculate_zigzag ops highs lows epsilon = Inr (markers, turning_points) \<and>
            turning_points ! i = 1 \<and> (?lo \<noteq> ?hi \<longrightarrow> markers ! ?lo = - 1)" by blast
  from A B scenario_upward show ?thesis by blast
qed

theorem prescan_upward_first_witness:
  "ordered_ops exact_ops \<and>
   length [100, 100, 100, 160, 100 :: real] = length [100, 100, 100, 100, 100 :: real] \<and>
   (0::nat) < 3 \<and> 3 < length [100, 100, 100, 160, 100 :: real] \<and>
   \<not> ratio_ge exact_ops ([100, 100, 100, 160, 100] ! 1)
       (running_min [100, 100, 100, 100, 100] 1) 0.5 \<and>
   \<not> ratio_ge exact_ops (running_max [100, 100, 100, 160, 100] 1)
       ([100, 100, 100, 100, 100] ! 1) 0.5 \<and>
   \<not> ratio_ge exact_ops ([100, 100, 100, 160, 100] ! 2)
       (running_min [100, 100, 100, 100, 100] 2) 0.5 \<and>
   \<not> ratio_ge exact_ops (running_max [100, 100, 100, 160, 100] 2)
       ([100, 100, 100, 100, 100] ! 2) 0.5 \<and>
   ratio_ge exact_ops ([100, 100, 100, 160, 100] ! 3)
       (running_min [100, 100, 100, 100, 100] 3) 0.5 \<and>
   earliest_index [100, 100, 100, 100, 100 :: real] (running_min [100, 100, 100, 100, 100] 3) = 0 \<and>
   earliest_index [100, 100, 100, 160, 100 :: real] (running_max [100, 100, 100, 160, 100] 3) = 3 \<and>
   running_max [100, 100, 100, 160, 100 :: real] 3 = 160 \<and>
   (\<exists>s. prescan exact_ops [100, 100, 100, 160, 100] [100, 100, 100, 100, 100] 0.5 1
          (zz_init exact_ops [100, 100, 100, 160, 100] [100, 100, 100, 100, 100]) = (3, s) \<and>
        markers_data s = [- 1, 0, 0, 0, 0] \<and>
        turning_points_data s = [0, 0, 0, 1, 0] \<and>
        direction s = 1 \<and> last_extreme_value s = 160 \<and> last_extreme_index s = 3)"
proof -
  let ?H = "[100, 100, 100, 160, 100 :: real]"
  let ?L = "[100, 100, 100, 100, 100 :: real]"
  have len: "length ?H = length ?L" "(0::nat) < 3" "3 < length ?H" by simp_all
  have rmin: "running_min ?L 1 = 100" "running_min ?L 2 = 100" "running_min ?L 3 = 100"
    by (simp_all add: running_min_def)
  have rmax: "running_max ?H 1 = 100" "running_max ?H 2 = 100" "running_max ?H 3 = 160"
    by (simp_all add: running_max_def)
  have q1: "\<not> ratio_ge exact_ops (?H ! 1) (running_min ?L 1) 0.5"
    and q2: "\<not> ratio_ge exact_ops (running_max ?H 1) (?L ! 1) 0.5"
    and q3: "\<not> ratio_ge exact_ops (?H ! 2) (running_min ?L 2) 0.5"
    and q4: "\<not> ratio_ge exact_ops (running_max ?H 2) (?L ! 2) 0.5"
    and f: "ratio_ge exact_ops (?H ! 3) (running_min ?L 3) 0.5"
    unfolding rmin rmax by (simp_all add: ratio_ge_def exact_ops_def)
  have quiet: "\<forall>j. 0 < j \<and> j < 3 \<longrightarrow>
           \<not> ratio_ge exact_ops (?H ! j) (running_min ?L j) 0.5 \<and>
           \<not> ratio_ge exact_ops (running_max ?H j) (?L ! j) 0.5"
  proof (intro allI impI)
    fix j :: nat assume "0 < j \<and> j < 3"
    then have "j = 1 \<or> j = 2" by auto
    then show "\<not> ratio_ge exact_ops (?H ! j) (running_min ?L j) 0.5 \<and>
           \<not> ratio_ge exact_ops (running_max ?H j) (?L ! j) 0.5"
      using q1 q2 q3 q4 by blast
  qed
  have e1: "earliest_index ?L (running_min ?L 3) = 0"
    unfolding rmin by (simp add: earliest_index_def)
  have e2: "earliest_index ?H (running_max ?H 3) = 3"
    unfolding rmax by (simp add: earliest_index_def)
  from prescan_upward_first [OF ordered_exact_ops len(1) len(2) len(3) quiet f]
  obtain s where s: "prescan exact_ops ?H ?L 0.5 1 (zz_init exact_ops ?H ?L) = (3, s)"
    "markers_data s = (replicate (length ?H) 0)[earliest_index ?L (running_min ?L 3) := - 1]"
    "turning_points_data s = (replicate (length ?H) 0)[3 := 1]"
    "direction s = 1" "last_extreme_value s = running_max ?H 3"
    "last_extreme_index s = earliest_index ?H (running_max ?H 3)"
    by blast
  have m: "markers_data s = [- 1, 0, 0, 0, 0]" unfolding s(2) e1 by (simp add: numeral_eq_Suc)
  have t: "turning_points_data s = [0, 0, 0, 1, 0]" unfolding s(3) by (simp add: numeral_eq_Suc)
  have v: "last_extreme_value s = 160" "last_extreme_index s = 3"
    using s(5,6) rmax(3) e2 by simp_all
  from s(1,4) m t v have E: "\<exists>s. prescan exact_ops ?H ?L 0.5 1 (zz_init exact_ops ?H ?L) = (3, s) \<and>
        markers_data s = [- 1, 0, 0, 0, 0] \<and> turning_points_data s = [0, 0, 0, 1, 0] \<and>
        direction s = 1 \<and> last_extreme_value s = 160 \<and> last_extreme_index s = 3" by blast
  from ordered_exact_ops len q1 q2 q3 q4 f e1 e2 rmax(3) E show ?thesis by blast
qed

lemma scenario_downward:
  "calculate_zigzag exact_ops [100, 95, 62] [98, 90, 60] 0.5 = Inr ([1, 0, 0], [- 1, 0, 0])"
  by (simp add: zz_eval)

text \<open>
  C2. Under the same conditions on the arithmetic: when no trigger fires before index \<open>i\<close>,
  the upward trigger does not fire at \<open>i\<close> and the downward trigger
  \<open>candidateHigh / lows[i] - 1 \<ge> epsilon\<close> does, Phase A ends at \<open>i\<close> having set
  \<open>markers[peakIndex] = 1\<close> and \<open>turningPoints[peakIndex] = -1\<close>, both at the index of the
  candidate high and not at \<open>i\<close>, with direction down and the tracked extreme equal to the
  candidate low with its index. In the returned arrays \<open>turningPoints[peakIndex] = -1\<close> still
  holds, and \<open>markers[peakIndex] = 1\<close> holds whenever the two candidates are at different
  indices.
\<close>

theorem prescan_downward_first:
  fixes ops :: "'a::linorder double_ops"
  assumes "ordered_ops ops" "length highs = length lows" "0 < i" "i < length highs"
    and "\<forall>j. 0 < j \<and> j < i \<longrightarrow>
           \<not> ratio_ge ops (highs ! j) (running_min lows j) epsilon \<and>
           \<not> ratio_ge ops (running_max highs j) (lows ! j) epsilon"
    and "\<not> ratio_ge ops (highs ! i) (running_min lows i) epsilon"
    and "ratio_ge ops (running_max highs i) (lows ! i) epsilon"
  shows "(\<exists>s. prescan ops highs lows epsilon 1 (zz_init ops highs lows) = (i, s) \<and>
            markers_data s
              = (replicate (length highs) 0)[earliest_index highs (running_max highs i) := 1] \<and>
            turning_points_data s
              = (replicate (length highs) 0)[earliest_index highs (running_max highs i) := - 1] \<and>
            direction s = - 1 \<and>
            last_extreme_value s = running_min lows i \<and>
            last_extreme_index s = earliest_index lows (running_min lows i)) \<and>
         (\<exists>markers turning_points.
            calculate_zigzag ops highs lows epsilon = Inr (markers, turning_points) \<and>
            turning_points ! earliest_index highs (running_max highs i) = - 1 \<and>
            (earliest_index highs (running_max highs i) \<noteq> earliest_index lows (running_min lows i)
               \<longrightarrow> markers ! earliest_index highs (running_max highs i) = 1))"
proof -
  let ?c = "candidates_at ops highs lows i"
  let ?s = "confirm_downtrend ?c"
  let ?lo = "earliest_index lows (running_min lows i)"
  let ?hi = "earliest_index highs (running_max highs i)"
  have nt: "no_trigger_between ops highs lows epsilon 1 i"
    by (rule quiet_no_trigger [OF assms(1,2,4,5)])
  have noup: "\<not> up_trigger ops highs lows epsilon i"
    using ordered_triggers(1) [OF assms(1,2,4), of epsilon] assms(6) by simp
  have dn: "down_trigger ops highs lows epsilon i"
    using ordered_triggers(2) [OF assms(1,2,4), of epsilon] assms(7) by simp
  have p: "prescan ops highs lows epsilon 1 (zz_init ops highs lows) = (i, ?s)"
    by (rule prescan_down_at [OF assms(3,4) nt noup dn])
  have c: "candidate_low_index ?c = ?lo" "candidate_low ?c = running_min lows i"
    "candidate_high_index ?c = ?hi"
    using candidates_at_running [OF assms(1,2,4)] by simp_all
  have o: "markers_data ?c = replicate (length highs) 0"
    "turning_points_data ?c = replicate (length highs) 0"
    using candidates_at_outputs [of ops highs lows i] by simp_all
  have s1: "markers_data ?s = (replicate (length highs) 0)[?hi := 1]"
    and s2: "turning_points_data ?s = (replicate (length highs) 0)[?hi := - 1]"
    and s3: "direction ?s = - 1" and s4: "last_extreme_value ?s = running_min lows i"
    and s5: "last_extreme_index ?s = ?lo" and s6: "trend_detected ?s \<noteq> 0"
    by (simp_all add: confirm_downtrend_def Let_def c o)
  have hi_le: "?hi \<le> i" using earliest_index_le(2) [of i highs] assms(4) by simp
  let ?f = "main_loop ops highs lows epsilon (i + 1) ?s"
  have res: "calculate_zigzag ops highs lows epsilon
               = Inr (markers_data ?f, turning_points_data ?f)"
  proof -
    from assms(4) have pos: "0 < length highs" by linarith
    show ?thesis by (rule calculate_zigzag_trend [OF assms(2) pos p s6])
  qed
  have "turning_points_data ?f ! ?hi = turning_points_data ?s ! ?hi"
    by (rule main_loop_tp_below) (use hi_le in simp)
  then have t: "turning_points_data ?f ! ?hi = - 1"
    using hi_le assms(4) by (simp add: s2)
  have m: "?hi \<noteq> ?lo \<longrightarrow> markers_data ?f ! ?hi = 1"
  proof
    assume ne: "?hi \<noteq> ?lo"
    have "markers_data ?f ! ?hi = markers_data ?s ! ?hi"
      by (rule main_loop_markers_below) (use hi_le ne s5 in simp_all)
    also have "\<dots> = 1" using hi_le assms(4) by (simp add: s1)
    finally show "markers_data ?f ! ?hi = 1" .
  qed
  from p s1 s2 s3 s4 s5 have A: "\<exists>s. prescan ops highs lows epsilon 1 (zz_init ops highs lows) = (i, s) \<and>
            markers_data s = (replicate (length highs) 0)[?hi := 1] \<and>
            turning_points_data s = (replicate (length highs) 0)[?hi := - 1] \<and>
            direction s = - 1 \<and>
            last_extreme_value s = running_min lows i \<and>
            last_extreme_index s = ?lo" by blast
  from res t m have B: "\<exists>markers turning_points.
            calculate_zigzag ops highs lows epsilon = Inr (markers, turning_points) \<and>
            turning_points ! ?hi = - 1 \<and> (?hi \<noteq> ?lo \<longrightarrow> markers ! ?hi = 1)" by blast
  from A B show ?thesis by blast
qed

theorem prescan_downward_first_witness:
  "ordered_ops exact_ops \<and>
   length [100, 95, 62 :: real] = length [98, 90, 60 :: real] \<and>
   (0::nat) < 2 \<and> 2 < length [100, 95, 62 :: real] \<and>
   \<not> ratio_ge exact_ops ([100, 95, 62] ! 1) (running_min [98, 90, 60] 1) 0.5 \<and>
   \<not> ratio_ge exact_ops (running_max [100, 95, 62] 1) ([98, 90, 60] ! 1) 0.5 \<and>
   \<not> ratio_ge exact_ops ([100, 95, 62] ! 2) (running_min [98, 90, 60] 2) 0.5 \<and>
   ratio_ge exact_ops (running_max [100, 95, 62] 2) ([98, 90, 60] ! 2) 0.5 \<and>
   earliest_index [100, 95, 62 :: real] (running_max [100, 95, 62] 2) = 0 \<and>
   earliest_index [98, 90, 60 :: real] (running_min [98, 90, 60] 2) = 2 \<and>
   running_min [98, 90, 60 :: real] 2 = 60 \<and>
   (\<exists>s. prescan exact_ops [100, 95, 62] [98, 90, 60] 0.5 1
          (zz_init exact_ops [100, 95, 62] [98, 90, 60]) = (2, s) \<and>
        markers_data s = [1, 0, 0] \<and> turning_points_data s = [- 1, 0, 0] \<and>
        direction s = - 1 \<and> last_extreme_value s = 60 \<and> last_extreme_index s = 2) \<and>
   calculate_zigzag exact_ops [100, 95, 62] [98, 90, 60] 0.5 = Inr ([1, 0, 0], [- 1, 0, 0])"
proof -
  let ?H = "[100, 95, 62 :: real]"
  let ?L = "[98, 90, 60 :: real]"
  have len: "length ?H = length ?L" "(0::nat) < 2" "2 < length ?H" by simp_all
  have rmin: "running_min ?L 1 = 90" "running_min ?L 2 = 60"
    by (simp_all add: running_min_def)
  have rmax: "running_max ?H 1 = 100" "running_max ?H 2 = 100"
    by (simp_all add: running_max_def)
  have q1: "\<not> ratio_ge exact_ops (?H ! 1) (running_min ?L 1) 0.5"
    and q2: "\<not> ratio_ge exact_ops (running_max ?H 1) (?L ! 1) 0.5"
    and q3: "\<not> ratio_ge exact_ops (?H ! 2) (running_min ?L 2) 0.5"
    and f: "ratio_ge exact_ops (running_max ?H 2) (?L ! 2) 0.5"
    unfolding rmin rmax by (simp_all add: ratio_ge_def exact_ops_def)
  have quiet: "\<forall>j. 0 < j \<and> j < 2 \<longrightarrow>
           \<not> ratio_ge exact_ops (?H ! j) (running_min ?L j) 0.5 \<and>
           \<not> ratio_ge exact_ops (running_max ?H j) (?L ! j) 0.5"
  proof (intro allI impI)
    fix j :: nat assume "0 < j \<and> j < 2"
    then have "j = 1" by auto
    then show "\<not> ratio_ge exact_ops (?H ! j) (running_min ?L j) 0.5 \<and>
           \<not> ratio_ge exact_ops (running_max ?H j) (?L ! j) 0.5"
      using q1 q2 by blast
  qed
  have e1: "earliest_index ?H (running_max ?H 2) = 0"
    unfolding rmax by (simp add: earliest_index_def)
  have e2: "earliest_index ?L (running_min ?L 2) = 2"
    unfolding rmin by (simp add: earliest_index_def)
  from prescan_downward_first [OF ordered_exact_ops len(1) len(2) len(3) quiet q3 f]
  obtain s where s: "prescan exact_ops ?H ?L 0.5 1 (zz_init exact_ops ?H ?L) = (2, s)"
    "markers_data s = (replicate (length ?H) 0)[earliest_index ?H (running_max ?H 2) := 1]"
    "turning_points_data s = (replicate (length ?H) 0)[earliest_index ?H (running_max ?H 2) := - 1]"
    "direction s = - 1" "last_extreme_value s = running_min ?L 2"
    "last_extreme_index s = earliest_index ?L (running_min ?L 2)"
    by blast
  have m: "markers_data s = [1, 0, 0]" unfolding s(2) e1 by (simp add: numeral_eq_Suc)
  have t: "turning_points_data s = [- 1, 0, 0]" unfolding s(3) e1 by (simp add: numeral_eq_Suc)
  have v: "last_extreme_value s = 60" "last_extreme_index s = 2"
    using s(5,6) rmin(2) e2 by simp_all
  from s(1,4) m t v have E: "\<exists>s. prescan exact_ops ?H ?L 0.5 1 (zz_init exact_ops ?H ?L) = (2, s) \<and>
        markers_data s = [1, 0, 0] \<and> turning_points_data s = [- 1, 0, 0] \<and>
        direction s = - 1 \<and> last_extreme_value s = 60 \<and> last_extreme_index s = 2" by blast
  from ordered_exact_ops len q1 q2 q3 f e1 e2 rmin(2) E scenario_downward show ?thesis by blast
qed

subsection \<open>Phase B\<close>

text \<open>
  C3, as stated, fails. On the series below an upward trend (peak candidate at index 2,
  \<open>highs[2] = 4\<close>) is reversed at index 3; the tracked value after the reset is
  \<open>highs[3] = 3\<close>, the value at the triggering index, and not the value \<open>highs[2] = 4\<close>
  stored at the old extreme index.
\<close>

theorem zigzag_reset_reads_new_index:
  "calculate_zigzag exact_ops [1, 2, 4, 3] [1, 2, 4, 1] 0.5 = Inr ([- 1, 0, 1, 0], [0, 1, 0, - 1]) \<and>
   last_extreme_index (zigzag_final exact_ops [1, 2, 4, 3] [1, 2, 4, 1] 0.5) = 3 \<and>
   last_extreme_value (zigzag_final exact_ops [1, 2, 4, 3] [1, 2, 4, 1] 0.5) = [1, 2, 4, 3] ! 3 \<and>
   last_extreme_value (zigzag_final exact_ops [1, 2, 4, 3] [1, 2, 4, 1] 0.5) \<noteq> [1, 2, 4, 3] ! 2"
  by (simp add: zz_eval)

text \<open>
  C3, amended. A reversal confirmed at index \<open>i\<close> marks the old extreme index in
  \<open>markers\<close>, records the confirmation at \<open>turningPoints[i]\<close>, flips the direction, and
  resets the tracked extreme to index \<open>i\<close> itself, with the value of index \<open>i\<close> read from
  the series of the trend that just ended: \<open>highs[i]\<close> when an uptrend flips to a downtrend,
  \<open>lows[i]\<close> when a downtrend flips to an uptrend.
\<close>

theorem main_step_reversal:
  "(direction s = 1 \<and> ratio_ge ops (last_extreme_value s) (lows ! i) epsilon \<longrightarrow>
      direction (main_step ops highs lows epsilon i s) = - 1 \<and>
      last_extreme_index (main_step ops highs lows epsilon i s) = i \<and>
      last_extreme_value (main_step ops highs lows epsilon i s) = highs ! i \<and>
      markers_data (main_step ops highs lows epsilon i s)
        = (markers_data s)[last_extreme_index s := 1] \<and>
      turning_points_data (main_step ops highs lows epsilon i s)
        = (turning_points_data s)[i := - 1]) \<and>
   (direction s = - 1 \<and> ratio_ge ops (highs ! i) (last_extreme_value s) epsilon \<longrightarrow>
      direction (main_step ops highs lows epsilon i s) = 1 \<and>
      last_extreme_index (main_step ops highs lows epsilon i s) = i \<and>
      last_extreme_value (main_step ops highs lows epsilon i s) = lows ! i \<and>
      markers_data (main_step ops highs lows epsilon i s)
        = (markers_data s)[last_extreme_index s := - 1] \<and>
      turning_points_data (main_step ops highs lows epsilon i s)
        = (turning_points_data s)[i := 1])"
  by (simp add: main_step_def Let_def)

theorem main_step_reversal_witness:
  "direction (snd (prescan exact_ops [100, 90, 60, 120] [100, 50, 50, 100] 0.5 1
      (zz_init exact_ops [100, 90, 60, 120] [100, 50, 50, 100]))) = 1 \<and>
   ratio_ge exact_ops
     (last_extreme_value (snd (prescan exact_ops [100, 90, 60, 120] [100, 50, 50, 100] 0.5 1
        (zz_init exact_ops [100, 90, 60, 120] [100, 50, 50, 100]))))
     ([100, 50, 50, 100] ! 2) 0.5 \<and>
   last_extreme_index (main_step exact_ops [100, 90, 60, 120] [100, 50, 50, 100] 0.5 2
     (snd (prescan exact_ops [100, 90, 60, 120] [100, 50, 50, 100] 0.5 1
        (zz_init exact_ops [100, 90, 60, 120] [100, 50, 50, 100])))) = 2 \<and>
   last_extreme_value (main_step exact_ops [100, 90, 60, 120] [100, 50, 50, 100] 0.5 2
     (snd (prescan exact_ops [100, 90, 60, 120] [100, 50, 50, 100] 0.5 1
        (zz_init exact_ops [100, 90, 60, 120] [100, 50, 50, 100])))) = [100, 90, 60, 120] ! 2 \<and>
   direction (main_step exact_ops [100, 90, 60, 120] [100, 50, 50, 100] 0.5 2
     (snd (prescan exact_ops [100, 90, 60, 120] [100, 50, 50, 100] 0.5 1
        (zz_init exact_ops [100, 90, 60, 120] [100, 50, 50, 100])))) = - 1 \<and>
   ratio_ge exact_ops ([100, 90, 60, 120] ! 3)
     (last_extreme_value (main_step exact_ops [100, 90, 60, 120] [100, 50, 50, 100] 0.5 2
       (snd (prescan exact_ops [100, 90, 60, 120] [100, 50, 50, 100] 0.5 1
          (zz_init exact_ops [100, 90, 60, 120] [100, 50, 50, 100]))))) 0.5 \<and>
   last_extreme_index (main_step exact_ops [100, 90, 60, 120] [100, 50, 50, 100] 0.5 3
     (main_step exact_ops [100, 90, 60, 120] [100, 50, 50, 100] 0.5 2
       (snd (prescan exact_ops [100, 90, 60, 120] [100, 50, 50, 100] 0.5 1
          (zz_init exact_ops [100, 90, 60, 120] [100, 50, 50, 100]))))) = 3 \<and>
   last_extreme_value (main_step exact_ops [100, 90, 60, 120] [100, 50, 50, 100] 0.5 3
     (main_step exact_ops [100, 90, 60, 120] [100, 50, 50, 100] 0.5 2
       (snd (prescan exact_ops [100, 90, 60, 120] [100, 50, 50, 100] 0.5 1
          (zz_init exact_ops [100, 90, 60, 120] [100, 50, 50, 100]))))) = [100, 50, 50, 100] ! 3"
proof -
  define p where "p = snd (prescan exact_ops [100, 90, 60, 120] [100, 50, 50, 100] 0.5 1
      (zz_init exact_ops [100, 90, 60, 120] [100, 50, 50, 100]))"
  define q where "q = main_step exact_ops [100, 90, 60, 120] [100, 50, 50, 100] 0.5 2 p"
  have p1: "direction p = 1"
    and p2: "ratio_ge exact_ops (last_extreme_value p) ([100, 50, 50, 100] ! 2) 0.5"
    unfolding p_def by (simp_all add: zz_eval)
  note up = main_step_reversal [where s = p and ops = exact_ops and highs = "[100, 90, 60, 120]"
      and lows = "[100, 50, 50, 100]" and epsilon = "0.5" and i = 2, folded q_def]
  from up p1 p2 have q1: "direction q = - 1" and q2: "last_extreme_index q = 2"
    and q3: "last_extreme_value q = [100, 90, 60, 120] ! 2" by blast+
  have q4: "ratio_ge exact_ops ([100, 90, 60, 120] ! 3) (last_extreme_value q) 0.5"
    unfolding q3 by (simp add: ratio_ge_def exact_ops_def)
  note down = main_step_reversal [where s = q and ops = exact_ops and highs = "[100, 90, 60, 120]"
      and lows = "[100, 50, 50, 100]" and epsilon = "0.5" and i = 3]
  from down q1 q4 have
    "last_extreme_index (main_step exact_ops [100, 90, 60, 120] [100, 50, 50, 100] 0.5 3 q) = 3"
    "last_extreme_value (main_step exact_ops [100, 90, 60, 120] [100, 50, 50, 100] 0.5 3 q)
       = [100, 50, 50, 100] ! 3" by blast+
  with p1 p2 q1 q2 q3 q4 show ?thesis unfolding q_def p_def by blast
qed

subsection \<open>Alternation of the markers\<close>

lemma nonzero_append: "nonzero (xs @ ys) = nonzero xs @ nonzero ys"
  by (simp add: nonzero_def)

lemma nonzero_replicate: "nonzero (replicate n 0) = []"
  by (simp add: nonzero_def)

lemma nonzero_single: "nonzero [v] = (if v = 0 then [] else [v])"
  by (simp add: nonzero_def)

lemma nonzero_take_Suc:
  "k < length m \<Longrightarrow> nonzero (take (Suc k) m) = nonzero (take k m) @ nonzero [m ! k]"
  by (simp add: take_Suc_conv_app_nth nonzero_append)

lemma nonzero_take_zeros:
  "a \<le> b \<Longrightarrow> b \<le> length m \<Longrightarrow> (\<forall>k. a \<le> k \<and> k < b \<longrightarrow> m ! k = 0) \<Longrightarrow>
   nonzero (take b m) = nonzero (take a m)"
proof (induction b)
  case 0
  then show ?case by simp
next
  case (Suc b)
  show ?case
  proof (cases "a = Suc b")
    case True
    then show ?thesis by simp
  next
    case False
    with Suc.prems have ab: "a \<le> b" and bl: "b < length m" and z: "m ! b = 0" by auto
    have "nonzero (take (Suc b) m) = nonzero (take b m) @ nonzero [m ! b]"
      by (rule nonzero_take_Suc [OF bl])
    also have "\<dots> = nonzero (take b m)" using z by (simp add: nonzero_single)
    also have "\<dots> = nonzero (take a m)" using Suc.IH ab bl Suc.prems(3) by simp
    finally show ?thesis .
  qed
qed

lemma nonzero_upto_extreme:
  assumes "e < b" "b \<le> length m" "\<forall>k. e < k \<and> k < length m \<longrightarrow> m ! k = 0"
  shows "nonzero (take b m) = nonzero (take e m) @ nonzero [m ! e]"
proof -
  have "nonzero (take b m) = nonzero (take (Suc e) m)"
    by (rule nonzero_take_zeros) (use assms in auto)
  also have "\<dots> = nonzero (take e m) @ nonzero [m ! e]"
    by (rule nonzero_take_Suc) (use assms in simp)
  finally show ?thesis .
qed

lemma alt3_keep: "alt3 i m d e \<Longrightarrow> i < length m \<Longrightarrow> alt3 (Suc i) m d e"
  by (simp add: alt3_def)

lemma alt3_update:
  assumes "alt3 i m d e" "i < length m"
  shows "alt3 (Suc i) m d i"
proof -
  from assms(1) have d: "d = 1 \<or> d = - 1" and ei: "e < i"
    and z: "\<forall>k. e < k \<and> k < length m \<longrightarrow> m ! k = 0"
    and da: "distinct_adj (nonzero (take e m) @ [d])"
    and me: "m ! e \<noteq> 0 \<longrightarrow> nonzero (take e m) = [] \<and> m ! e \<noteq> d"
    by (simp_all add: alt3_def)
  have p: "nonzero (take i m) = nonzero (take e m) @ nonzero [m ! e]"
    by (rule nonzero_upto_extreme) (use ei assms(2) z in simp_all)
  have da': "distinct_adj (nonzero (take i m) @ [d])"
  proof (cases "m ! e = 0")
    case True
    then show ?thesis using da by (simp add: p nonzero_single)
  next
    case False
    with me have "nonzero (take e m) = []" "m ! e \<noteq> d" by simp_all
    with False show ?thesis by (simp add: p nonzero_single)
  qed
  have mi: "m ! i = 0" using z ei assms(2) by simp
  have z': "\<forall>k. i < k \<and> k < length m \<longrightarrow> m ! k = 0" using z ei by simp
  show ?thesis unfolding alt3_def using d assms(2) z' da' mi by simp
qed

lemma alt3_reverse:
  assumes "alt3 i m d e" "i < length m"
  shows "alt3 (Suc i) (m[e := d]) (- d) i"
proof -
  from assms(1) have d: "d = 1 \<or> d = - 1" and ei: "e < i"
    and z: "\<forall>k. e < k \<and> k < length m \<longrightarrow> m ! k = 0"
    and da: "distinct_adj (nonzero (take e m) @ [d])"
    by (simp_all add: alt3_def)
  let ?m = "m[e := d]"
  have z': "\<forall>k. e < k \<and> k < length ?m \<longrightarrow> ?m ! k = 0" using z by simp
  have el: "e < length m" using ei assms(2) by simp
  have "nonzero (take i ?m) = nonzero (take e ?m) @ nonzero [?m ! e]"
    by (rule nonzero_upto_extreme [OF ei _ z']) (use assms(2) in simp)
  also have "\<dots> = nonzero (take e m) @ [d]" using el d by (auto simp add: nonzero_single)
  finally have p: "nonzero (take i ?m) = nonzero (take e m) @ [d]" .
  have "distinct_adj ((nonzero (take e m) @ [d]) @ [- d])"
    using da d by (subst distinct_adj_append_iff) auto
  then have da': "distinct_adj (nonzero (take i ?m) @ [- d])" by (simp add: p)
  have mi: "?m ! i = 0" using z ei assms(2) by simp
  have zi: "\<forall>k. i < k \<and> k < length ?m \<longrightarrow> ?m ! k = 0" using z ei by simp
  have d': "- d = 1 \<or> - d = - 1" using d by auto
  have il: "Suc i \<le> length ?m" using assms(2) by simp
  show ?thesis unfolding alt3_def using d' il zi da' mi by simp
qed

lemma alt3_final:
  assumes "alt3 i m d e"
  shows "distinct_adj (nonzero m)"
proof -
  from assms have ei: "e < i" and il: "i \<le> length m"
    and z: "\<forall>k. e < k \<and> k < length m \<longrightarrow> m ! k = 0"
    and da: "distinct_adj (nonzero (take e m) @ [d])"
    and me: "m ! e \<noteq> 0 \<longrightarrow> nonzero (take e m) = [] \<and> m ! e \<noteq> d"
    by (simp_all add: alt3_def)
  have "nonzero (take (length m) m) = nonzero (take e m) @ nonzero [m ! e]"
    by (rule nonzero_upto_extreme) (use ei il z in simp_all)
  then have p: "nonzero m = nonzero (take e m) @ nonzero [m ! e]" by simp
  show ?thesis
  proof (cases "m ! e = 0")
    case True
    from da have "distinct_adj (nonzero (take e m))" by (rule distinct_adj_appendD1)
    with True show ?thesis by (simp add: p nonzero_single)
  next
    case False
    with me have "nonzero (take e m) = []" by simp
    with False show ?thesis by (simp add: p nonzero_single)
  qed
qed

lemma main_step_triple:
  assumes "direction s = 1 \<or> direction s = - 1"
  shows "(markers_data (main_step ops highs lows epsilon i s) = markers_data s \<and>
          direction (main_step ops highs lows epsilon i s) = direction s \<and>
          last_extreme_index (main_step ops highs lows epsilon i s) = last_extreme_index s) \<or>
         (markers_data (main_step ops highs lows epsilon i s) = markers_data s \<and>
          direction (main_step ops highs lows epsilon i s) = direction s \<and>
          last_extreme_index (main_step ops highs lows epsilon i s) = i) \<or>
         (markers_data (main_step ops highs lows epsilon i s)
            = (markers_data s)[last_extreme_index s := direction s] \<and>
          direction (main_step ops highs lows epsilon i s) = - direction s \<and>
          last_extreme_index (main_step ops highs lows epsilon i s) = i)"
  using assms by (auto simp add: main_step_def Let_def)

lemma main_step_alt_inv:
  assumes "alt_inv i s" "i < length (markers_data s)"
  shows "alt_inv (Suc i) (main_step ops highs lows epsilon i s)"
proof -
  let ?s' = "main_step ops highs lows epsilon i s"
  from assms(1) have a: "alt3 i (markers_data s) (direction s) (last_extreme_index s)"
    by (simp add: alt_inv_def)
  then have d: "direction s = 1 \<or> direction s = - 1" by (simp add: alt3_def)
  from main_step_triple [OF d, of ops highs lows epsilon i]
  consider (keep) "markers_data ?s' = markers_data s" "direction ?s' = direction s"
      "last_extreme_index ?s' = last_extreme_index s"
    | (update) "markers_data ?s' = markers_data s" "direction ?s' = direction s"
      "last_extreme_index ?s' = i"
    | (reverse) "markers_data ?s' = (markers_data s)[last_extreme_index s := direction s]"
      "direction ?s' = - direction s" "last_extreme_index ?s' = i"
    by blast
  then show ?thesis
  proof cases
    case keep
    then show ?thesis using alt3_keep [OF a assms(2)] by (simp add: alt_inv_def)
  next
    case update
    then show ?thesis using alt3_update [OF a assms(2)] by (simp add: alt_inv_def)
  next
    case reverse
    then show ?thesis using alt3_reverse [OF a assms(2)] by (simp add: alt_inv_def)
  qed
qed

lemma main_step_length:
  "length (markers_data (main_step ops highs lows epsilon i s)) = length (markers_data s)"
  by (simp add: main_step_def Let_def)

lemma main_loop_alt:
  "alt_inv i s \<Longrightarrow> length (markers_data s) = length highs \<Longrightarrow>
   distinct_adj (nonzero (markers_data (main_loop ops highs lows epsilon i s)))"
proof (induction ops highs lows epsilon i s rule: main_loop.induct)
  case (1 ops highs lows epsilon i s)
  show ?case
  proof (cases "i < length highs")
    case True
    have il: "i < length (markers_data s)" using True "1.prems"(2) by simp
    have inv: "alt_inv (Suc i) (main_step ops highs lows epsilon i s)"
      by (rule main_step_alt_inv [OF "1.prems"(1) il])
    have len: "length (markers_data (main_step ops highs lows epsilon i s)) = length highs"
      using "1.prems"(2) by (simp add: main_step_length)
    have "distinct_adj (nonzero (markers_data (main_loop ops highs lows epsilon (Suc i)
            (main_step ops highs lows epsilon i s))))"
      by (rule "1.IH" [OF True inv len])
    then show ?thesis using True by (subst main_loop.simps) simp
  next
    case False
    have "distinct_adj (nonzero (markers_data s))"
      using "1.prems"(1) alt3_final by (auto simp add: alt_inv_def)
    then show ?thesis using False by (subst main_loop.simps) simp
  qed
qed

lemma candidates_at_index_le:
  "candidate_low_index (candidates_at ops highs lows i) \<le> i \<and>
   candidate_high_index (candidates_at ops highs lows i) \<le> i"
proof (induction i)
  case 0
  then show ?case by (simp add: zz_init_def)
next
  case (Suc i)
  then show ?case by (auto simp add: update_candidates_def Let_def)
qed

lemma prescan_result:
  "prescan ops highs lows epsilon (Suc k) (candidates_at ops highs lows k) = (i, s) \<Longrightarrow>
   (\<exists>j. s = candidates_at ops highs lows j) \<or>
   (i < length highs \<and>
    (s = confirm_uptrend i (candidates_at ops highs lows i) \<or>
     s = confirm_downtrend (candidates_at ops highs lows i)))"
proof (induction d \<equiv> "length highs - Suc k" arbitrary: k)
  case 0
  then have "\<not> Suc k < length highs" by simp
  then have "prescan ops highs lows epsilon (Suc k) (candidates_at ops highs lows k)
             = (Suc k, candidates_at ops highs lows k)"
    by (subst prescan.simps) simp
  with "0.prems" show ?case by auto
next
  case (Suc d)
  then have lt: "Suc k < length highs" by simp
  show ?case
  proof (cases "up_trigger ops highs lows epsilon (Suc k)")
    case True
    have "prescan ops highs lows epsilon (Suc k) (candidates_at ops highs lows k)
          = (Suc k, confirm_uptrend (Suc k) (candidates_at ops highs lows (Suc k)))"
      using lt True by (subst prescan.simps) (simp add: up_trigger_def Let_def)
    with Suc.prems lt show ?thesis by auto
  next
    case noup: False
    show ?thesis
    proof (cases "down_trigger ops highs lows epsilon (Suc k)")
      case True
      have "prescan ops highs lows epsilon (Suc k) (candidates_at ops highs lows k)
          = (Suc k, confirm_downtrend (candidates_at ops highs lows (Suc k)))"
        using lt noup True
        by (subst prescan.simps) (simp add: up_trigger_def down_trigger_def Let_def)
      with Suc.prems lt show ?thesis by auto
    next
      case False
      have "prescan ops highs lows epsilon (Suc k) (candidates_at ops highs lows k)
          = prescan ops highs lows epsilon (Suc (Suc k)) (candidates_at ops highs lows (Suc k))"
        by (rule prescan_step_no_trigger [OF lt noup False])
      with Suc.prems have p: "prescan ops highs lows epsilon (Suc (Suc k))
          (candidates_at ops highs lows (Suc k)) = (i, s)" by simp
      have "d = length highs - Suc (Suc k)" using Suc.hyps(2) by simp
      from Suc.hyps(1) [OF this p] show ?thesis .
    qed
  qed
qed

lemma nonzero_replicate_update:
  "nonzero ((replicate n 0)[k := v]) = (if k < n \<and> v \<noteq> 0 then [v] else [])"
proof (cases "k < n")
  case True
  then have "(replicate n 0)[k := v] = replicate k 0 @ v # replicate (n - Suc k) (0::int)"
    by (simp add: upd_conv_take_nth_drop min_def)
  then show ?thesis using True
    by (simp add: nonzero_append nonzero_replicate nonzero_def)
next
  case False
  then have "(replicate n 0)[k := v] = replicate n (0::int)"
    by (intro list_update_beyond) simp
  with False show ?thesis by (simp add: nonzero_replicate)
qed

lemma alt3_initial:
  assumes "a \<le> e" "e \<le> i" "i < n" "d = 1 \<or> d = - 1"
  shows "alt3 (Suc i) ((replicate n 0)[a := - d]) d e"
proof -
  let ?m = "(replicate n 0)[a := - d]"
  have en: "e < n" using assms by simp
  have z: "\<forall>k. e < k \<and> k < length ?m \<longrightarrow> ?m ! k = 0" using assms(1) by simp
  have "take e ?m = (replicate e 0)[a := - d]"
    using en by (simp add: take_update_swap min_def)
  then have p: "nonzero (take e ?m) = (if a < e then [- d] else [])"
    using assms(4) by (auto simp add: nonzero_replicate_update)
  have da: "distinct_adj (nonzero (take e ?m) @ [d])"
    using assms(4) by (auto simp add: p)
  have me: "?m ! e \<noteq> 0 \<longrightarrow> nonzero (take e ?m) = [] \<and> ?m ! e \<noteq> d"
  proof
    assume ne: "?m ! e \<noteq> 0"
    then have ae: "a = e" using en by (cases "a = e") simp_all
    then have md: "?m ! e = - d" using en by simp
    have pe: "nonzero (take e ?m) = []" unfolding p using ae by simp
    have nd: "?m ! e \<noteq> d" unfolding md using assms(4) by auto
    from pe nd show "nonzero (take e ?m) = [] \<and> ?m ! e \<noteq> d" by (rule conjI)
  qed
  show ?thesis unfolding alt3_def using assms(2,3,4) z da me by simp
qed

text \<open>
  C4, as stated, fails. On the series below the upward trigger fires at index 1, whose own
  bar holds the candidate low (trough marked at index 1) while the candidate high, which
  seeds Phase B, is at index 0. The first reversal then marks a peak at index 0, before the
  trough, and the next reversal marks a second trough at index 2: the nonzero markers read
  1, -1, -1.
\<close>

theorem markers_two_troughs_in_a_row:
  "calculate_zigzag exact_ops [100, 90, 60, 120] [100, 50, 50, 100] 0.5
     = Inr ([1, - 1, - 1, 0], [0, 1, - 1, 1]) \<and>
   \<not> distinct_adj (filter (\<lambda>v. v \<noteq> 0) [1, - 1, - 1, 0 :: int])"
  by (simp add: zz_eval)

text \<open>
  C4, amended. The nonzero entries of the returned markers, in index order, alternate in
  sign (no two equal neighbours) whenever the extreme that Phase A seeds for Phase B is not
  at an earlier index than the extreme that Phase A marks: after an upward trigger the
  candidate-low index is at most the candidate-high index, after a downward trigger the
  candidate-high index is at most the candidate-low index. This holds for every arithmetic.
\<close>

theorem markers_alternate:
  assumes "length highs = length lows" "0 < length highs"
    and "prescan ops highs lows epsilon 1 (zz_init ops highs lows) = (i, s)"
    and "trend_detected s = 1 \<longrightarrow> candidate_low_index s \<le> candidate_high_index s"
    and "trend_detected s = - 1 \<longrightarrow> candidate_high_index s \<le> candidate_low_index s"
  shows "\<exists>markers turning_points.
           calculate_zigzag ops highs lows epsilon = Inr (markers, turning_points) \<and>
           distinct_adj (filter (\<lambda>v. v \<noteq> 0) markers)"
proof -
  let ?n = "length highs"
  let ?c = "candidates_at ops highs lows i"
  have p0: "prescan ops highs lows epsilon (Suc 0) (candidates_at ops highs lows 0) = (i, s)"
    using assms(3) by simp
  have started: "distinct_adj (nonzero (markers_data (main_loop ops highs lows epsilon (i + 1) s)))"
    if inv: "alt_inv (Suc i) s" and len: "length (markers_data s) = ?n" for s :: "'a zz_state"
    using main_loop_alt [OF inv len] by simp
  from prescan_result [OF p0]
  consider (none) j where "s = candidates_at ops highs lows j"
    | (up) "i < ?n" "s = confirm_uptrend i ?c"
    | (down) "i < ?n" "s = confirm_downtrend ?c"
    by blast
  then show ?thesis
  proof cases
    case none
    then have o: "markers_data s = replicate ?n 0" "trend_detected s = 0"
      using candidates_at_outputs [of ops highs lows j] by simp_all
    have "calculate_zigzag ops highs lows epsilon = Inr (markers_data s, turning_points_data s)"
      by (rule calculate_zigzag_prescan_zero [OF assms(1,2,3) o(2)])
    moreover have "distinct_adj (filter (\<lambda>v. v \<noteq> 0) (markers_data s))"
      by (simp add: o(1))
    ultimately show ?thesis by blast
  next
    case up
    have o: "markers_data ?c = replicate ?n 0"
      using candidates_at_outputs [of ops highs lows i] by simp
    have f: "markers_data s = (replicate ?n 0)[candidate_low_index ?c := - 1]"
      "direction s = 1" "last_extreme_index s = candidate_high_index ?c"
      "trend_detected s = 1" "candidate_low_index s = candidate_low_index ?c"
      "candidate_high_index s = candidate_high_index ?c"
      by (simp_all add: up(2) confirm_uptrend_def Let_def o)
    have le: "candidate_low_index ?c \<le> candidate_high_index ?c" using assms(4) f by simp
    have hi: "candidate_high_index ?c \<le> i"
      using candidates_at_index_le [of ops highs lows i] by simp
    have "alt3 (Suc i) ((replicate ?n 0)[candidate_low_index ?c := - 1]) 1
            (candidate_high_index ?c)"
      using alt3_initial [OF le hi up(1), of 1] by simp
    then have inv: "alt_inv (Suc i) s" by (simp add: alt_inv_def f)
    have len: "length (markers_data s) = ?n" by (simp add: f)
    have t: "trend_detected s \<noteq> 0" by (simp add: f)
    have "calculate_zigzag ops highs lows epsilon
         = Inr (markers_data (main_loop ops highs lows epsilon (i + 1) s),
                turning_points_data (main_loop ops highs lows epsilon (i + 1) s))"
      by (rule calculate_zigzag_trend [OF assms(1,2,3) t])
    moreover have "distinct_adj (filter (\<lambda>v. v \<noteq> 0)
        (markers_data (main_loop ops highs lows epsilon (i + 1) s)))"
      using started [OF inv len] by (simp add: nonzero_def)
    ultimately show ?thesis by blast
  next
    case down
    have o: "markers_data ?c = replicate ?n 0"
      using candidates_at_outputs [of ops highs lows i] by simp
    have f: "markers_data s = (replicate ?n 0)[candidate_high_index ?c := 1]"
      "direction s = - 1" "last_extreme_index s = candidate_low_index ?c"
      "trend_detected s = - 1" "candidate_low_index s = candidate_low_index ?c"
      "candidate_high_index s = candidate_high_index ?c"
      by (simp_all add: down(2) confirm_downtrend_def Let_def o)
    have le: "candidate_high_index ?c \<le> candidate_low_index ?c" using assms(5) f by simp
    have lo: "candidate_low_index ?c \<le> i"
      using candidates_at_index_le [of ops highs lows i] by simp
    have "alt3 (Suc i) ((replicate ?n 0)[candidate_high_index ?c := 1]) (- 1)
            (candidate_low_index ?c)"
      using alt3_initial [OF le lo down(1), of "- 1"] by simp
    then have inv: "alt_inv (Suc i) s" by (simp add: alt_inv_def f)
    have len: "length (markers_data s) = ?n" by (simp add: f)
    have t: "trend_detected s \<noteq> 0" by (simp add: f)
    have "calculate_zigzag ops highs lows epsilon
         = Inr (markers_data (main_loop ops highs lows epsilon (i + 1) s),
                turning_points_data (main_loop ops highs lows epsilon (i + 1) s))"
      by (rule calculate_zigzag_trend [OF assms(1,2,3) t])
    moreover have "distinct_adj (filter (\<lambda>v. v \<noteq> 0)
        (markers_data (main_loop ops highs lows epsilon (i + 1) s)))"
      using started [OF inv len] by (simp add: nonzero_def)
    ultimately show ?thesis by blast
  qed
qed

theorem markers_alternate_witness:
  "length [100, 100, 100, 160, 100, 90, 150 :: real]
     = length [100, 100, 100, 100, 100, 80, 140 :: real] \<and>
   0 < length [100, 100, 100, 160, 100, 90, 150 :: real] \<and>
   trend_detected (snd (prescan exact_ops [100, 100, 100, 160, 100, 90, 150]
      [100, 100, 100, 100, 100, 80, 140] 0.5 1
      (zz_init exact_ops [100, 100, 100, 160, 100, 90, 150]
         [100, 100, 100, 100, 100, 80, 140]))) = 1 \<and>
   candidate_low_index (snd (prescan exact_ops [100, 100, 100, 160, 100, 90, 150]
      [100, 100, 100, 100, 100, 80, 140] 0.5 1
      (zz_init exact_ops [100, 100, 100, 160, 100, 90, 150]
         [100, 100, 100, 100, 100, 80, 140])))
     \<le> candidate_high_index (snd (prescan exact_ops [100, 100, 100, 160, 100, 90, 150]
      [100, 100, 100, 100, 100, 80, 140] 0.5 1
      (zz_init exact_ops [100, 100, 100, 160, 100, 90, 150]
         [100, 100, 100, 100, 100, 80, 140]))) \<and>
   calculate_zigzag exact_ops [100, 100, 100, 160, 100, 90, 150]
      [100, 100, 100, 100, 100, 80, 140] 0.5
     = Inr ([- 1, 0, 0, 1, 0, - 1, 0], [0, 0, 0, 1, - 1, 0, 1]) \<and>
   distinct_adj (filter (\<lambda>v. v \<noteq> 0) [- 1, 0, 0, 1, 0, - 1, 0 :: int])"
proof -
  let ?H = "[100, 100, 100, 160, 100, 90, 150 :: real]"
  let ?L = "[100, 100, 100, 100, 100, 80, 140 :: real]"
  define p where "p = prescan exact_ops ?H ?L 0.5 1 (zz_init exact_ops ?H ?L)"
  have len: "length ?H = length ?L" "0 < length ?H" by simp_all
  have pe: "p = (fst p, snd p)" by simp
  have t: "trend_detected (snd p) = 1"
    and c: "candidate_low_index (snd p) \<le> candidate_high_index (snd p)"
    unfolding p_def by (simp_all add: zz_eval)
  have h1: "trend_detected (snd p) = 1 \<longrightarrow>
      candidate_low_index (snd p) \<le> candidate_high_index (snd p)" using c by simp
  have h2: "trend_detected (snd p) = - 1 \<longrightarrow>
      candidate_high_index (snd p) \<le> candidate_low_index (snd p)" using t by simp
  have ev: "calculate_zigzag exact_ops ?H ?L 0.5
     = Inr ([- 1, 0, 0, 1, 0, - 1, 0], [0, 0, 0, 1, - 1, 0, 1])"
    by (simp add: zz_eval)
  from markers_alternate [OF len pe [unfolded p_def] h1 [unfolded p_def] h2 [unfolded p_def]]
  obtain markers turning_points where
    r: "calculate_zigzag exact_ops ?H ?L 0.5 = Inr (markers, turning_points)"
      "distinct_adj (filter (\<lambda>v. v \<noteq> 0) markers)" by blast
  from r(1) ev have "markers = [- 1, 0, 0, 1, 0, - 1, 0]" by simp
  with r(2) have d: "distinct_adj (filter (\<lambda>v. v \<noteq> 0) [- 1, 0, 0, 1, 0, - 1, 0 :: int])"
    by (simp only:)
  from len t c ev d show ?thesis unfolding p_def by blast
qed

end
